theory Spec2Isabelle
  imports Complex_Main
begin

section \<open>Numbers, bounds and the objective\<close>

text \<open>
  The Python code computes with floats. The model computes with exact reals: an abscissa
  and a function value are a \<^typ>\<open>real\<close>, so rounding, NaN and infinite abscissas are
  outside the model. The two bounds default to \<open>-inf\<close> and \<open>+inf\<close>, and the code compares
  and clamps against them, so a bound is a \<^typ>\<open>real option\<close>: for the lower bound \<open>a\<close>,
  \<open>None\<close> is \<open>-inf\<close>; for the upper bound \<open>b\<close>, \<open>None\<close> is \<open>+inf\<close>. The optional starting
  points \<open>x0\<close> and \<open>x1\<close> are a \<^typ>\<open>real option\<close> as well, \<open>None\<close> being Python's \<open>None\<close>.

  The objective is an opaque callable. It is modelled as a function that takes the
  abscissa and a state and returns the value and the new state, so that what a call
  does besides returning (counting, logging) is part of the model. A mathematical
  function is the objective that leaves the state alone.
\<close>

type_synonym 's objective = "real \<Rightarrow> 's \<Rightarrow> real \<times> 's"

type_synonym triple = "real \<times> real \<times> real \<times> real \<times> real \<times> real"

datatype error = AssertionError

definition stateless :: "(real \<Rightarrow> real) \<Rightarrow> 's objective" where
  "stateless g x s = (g x, s)"

text \<open>\<open>_eps = 1.4901161193847656e-08\<close>: the double this literal denotes is \<open>2 ^ -26\<close>.\<close>

definition eps :: real where
  "eps = 1 / 2 ^ 26"

text \<open>Comparisons with a bound, and \<open>max(x, a)\<close>, \<open>min(x, b)\<close>.\<close>

definition lo_le :: "real option \<Rightarrow> real \<Rightarrow> bool" where
  "lo_le a x = (case a of None \<Rightarrow> True | Some l \<Rightarrow> l \<le> x)"

definition lo_lt :: "real option \<Rightarrow> real \<Rightarrow> bool" where
  "lo_lt a x = (case a of None \<Rightarrow> True | Some l \<Rightarrow> l < x)"

definition le_hi :: "real \<Rightarrow> real option \<Rightarrow> bool" where
  "le_hi x b = (case b of None \<Rightarrow> True | Some h \<Rightarrow> x \<le> h)"

definition lt_hi :: "real \<Rightarrow> real option \<Rightarrow> bool" where
  "lt_hi x b = (case b of None \<Rightarrow> True | Some h \<Rightarrow> x < h)"

definition max_lo :: "real \<Rightarrow> real option \<Rightarrow> real" where
  "max_lo x a = (case a of None \<Rightarrow> x | Some l \<Rightarrow> max x l)"

definition min_hi :: "real \<Rightarrow> real option \<Rightarrow> real" where
  "min_hi x b = (case b of None \<Rightarrow> x | Some h \<Rightarrow> min x h)"

section \<open>The helpers of the bracket finder\<close>

definition sort_triple :: "real \<Rightarrow> real \<Rightarrow> real \<Rightarrow> real \<Rightarrow> real \<Rightarrow> real \<Rightarrow> triple" where
  "sort_triple x0 x1 x2 f0 f1 f2 =
     (if x0 > x2 then (x2, x1, x0, f2, f1, f0) else (x0, x1, x2, f0, f1, f2))"

definition boundary_equal :: "real \<Rightarrow> real option \<Rightarrow> real option \<Rightarrow> bool" where
  "boundary_equal x a b = (a = Some x \<or> b = Some x)"

definition boundary_inside :: "real \<Rightarrow> real option \<Rightarrow> real option \<Rightarrow> bool" where
  "boundary_inside x a b = (lo_lt a x \<and> lt_hi x b)"

definition ensure_boundary :: "real \<Rightarrow> real option \<Rightarrow> real option \<Rightarrow> real" where
  "ensure_boundary x a b = max_lo (min_hi x b) a"

definition tol :: "real \<Rightarrow> real \<Rightarrow> real \<Rightarrow> real" where
  "tol x rtol atol = \<bar>x\<bar> * rtol + atol"

text \<open>
  \<open>_initialize_interval\<close>. The list \<open>x\<close> holds the starting points that are not \<open>None\<close>,
  sorted. With none given, \<open>x0 = min(max(0, a), b)\<close>; with one given, \<open>x0\<close> is that point
  and \<open>x1\<close> keeps the value it was passed; with two, they are taken in ascending order.
  The test \<open>x0 - a > b - x0\<close> is on floats: \<open>x0 - a\<close> is \<open>+inf\<close> when \<open>a\<close> is \<open>-inf\<close>, and
  \<open>b - x0\<close> is \<open>+inf\<close> when \<open>b\<close> is \<open>+inf\<close>.
\<close>

definition initialize_interval ::
  "real option \<Rightarrow> real option \<Rightarrow> real option \<Rightarrow> real option \<Rightarrow> real \<Rightarrow> real \<Rightarrow> real
     \<Rightarrow> real \<times> real" where
  "initialize_interval x0 x1 a b gfactor rtol atol =
     (let (x0', x1') =
        (case (x0, x1) of
           (None, None) \<Rightarrow> (min_hi (max_lo 0 a) b, None)
         | (Some u, None) \<Rightarrow> (u, None)
         | (None, Some v) \<Rightarrow> (v, Some v)
         | (Some u, Some v) \<Rightarrow> (min u v, Some (max u v)))
      in case x1' of
           Some v \<Rightarrow> (x0', v)
         | None \<Rightarrow>
             if (case (a, b) of
                   (None, None) \<Rightarrow> False
                 | (None, Some h) \<Rightarrow> True
                 | (Some l, None) \<Rightarrow> False
                 | (Some l, Some h) \<Rightarrow> x0' - l > h - x0')
             then (x0', max_lo (x0' - 10 * gfactor * tol x0' rtol atol) a)
             else (x0', min_hi (x0' + 10 * gfactor * tol x0' rtol atol) b))"

text \<open>
  \<open>_resolve_equal_fvalue\<close>: one evaluation, at \<open>x0/2 + x1/2\<close>; the midpoint becomes the
  middle point of the triple.
\<close>

definition resolve_equal_fvalue ::
  "'s objective \<Rightarrow> real \<Rightarrow> real \<Rightarrow> real \<Rightarrow> real \<Rightarrow> 's \<Rightarrow> (error + triple \<times> nat) \<times> 's" where
  "resolve_equal_fvalue f x0 x1 f0 f1 s =
     (let x2 = x0 / 2 + x1 / 2;
          (f2, s) = f x2 s;
          (x2, x1) = (x1, x2);
          (f2, f1) = (f1, f2);
          ecode = (if \<not> (f0 > f1 \<and> f1 < f2) then 5 else 1)
      in (Inr (sort_triple x0 x1 x2 f0 f1 f2, ecode), s))"

section \<open>The bracket finder\<close>

text \<open>
  The expansion loop of \<open>bracket\<close>: while the triple is not a bracket, iterations are
  left and the newest point is strictly inside the bounds, the window slides to the
  next point. It returns the variables the code reads after the loop. The next point
  \<open>x2 + gfactor * (x2 - x1)\<close> is an exact real here, where the code rounds the difference,
  the product and the sum to binary64; the tests and the clamping are the code's own.
\<close>

function expansion_loop ::
  "'s objective \<Rightarrow> real option \<Rightarrow> real option \<Rightarrow> real \<Rightarrow> int
     \<Rightarrow> real \<Rightarrow> real \<Rightarrow> real \<Rightarrow> real \<Rightarrow> real \<Rightarrow> real \<Rightarrow> int \<Rightarrow> 's
     \<Rightarrow> (real \<times> real \<times> real \<times> real \<times> real \<times> real \<times> int) \<times> 's" where
  "expansion_loop f a b gfactor maxiter x0 x1 x2 f0 f1 f2 nit s =
     (if \<not> (f0 > f1 \<and> f1 < f2) \<and> nit < maxiter \<and> boundary_inside x2 a b then
        (let xt = ensure_boundary (x2 + gfactor * (x2 - x1)) a b
         in expansion_loop f a b gfactor maxiter x1 x2 xt f1 f2
              (fst (f xt s)) (nit + 1) (snd (f xt s)))
      else ((x0, x1, x2, f0, f1, f2, nit), s))"
  by pat_completeness auto
termination
  by (relation "measure (\<lambda>(f, a, b, gfactor, maxiter, x0, x1, x2, f0, f1, f2, nit, s).
        nat (maxiter - nit))") auto

declare expansion_loop.simps [simp del]

text \<open>
  \<open>bracket\<close>. An assertion that fails is the result \<open>Inl AssertionError\<close>, with the state
  as it is then. The exit code is the second component of the result.
\<close>

definition bracket ::
  "'s objective \<Rightarrow> real option \<Rightarrow> real option \<Rightarrow> real option \<Rightarrow> real option
     \<Rightarrow> real \<Rightarrow> real \<Rightarrow> real \<Rightarrow> int \<Rightarrow> 's \<Rightarrow> (error + triple \<times> nat) \<times> 's" where
  "bracket f x0 x1 a b gfactor rtol atol maxiter s =
     (if \<not> gfactor > 1 then (Inl AssertionError, s)
      else if \<not> maxiter > 0 then (Inl AssertionError, s)
      else
        let (x0, x1) = initialize_interval x0 x1 a b gfactor rtol atol;
            (f0, s) = f x0 s;
            (f1, s) = f x1 s;
            (x0, x1, f0, f1) = (if f0 < f1 then (x1, x0, f1, f0) else (x0, x1, f0, f1))
        in
          if \<bar>x0 - x1\<bar> < 2 * tol x0 rtol atol then
            (Inr (sort_triple x0 x1 x1 f0 f1 f1, 3), s)
          else if f0 = f1 then resolve_equal_fvalue f x0 x1 f0 f1 s
          else if \<not> (lo_le a x0 \<and> le_hi x0 b) then (Inl AssertionError, s)
          else if \<not> (lo_le a x1 \<and> le_hi x1 b) then (Inl AssertionError, s)
          else if \<not> x0 \<noteq> x1 then (Inl AssertionError, s)
          else if \<not> f0 \<noteq> f1 then (Inl AssertionError, s)
          else if boundary_equal x1 a b then
            (let x2 = x1; f2 = f1 in (Inr (sort_triple x0 x1 x2 f0 f1 f2, 2), s))
          else
            let x2 = ensure_boundary (x1 + (x1 - x0) * gfactor) a b;
                (f2, s) = f x2 s
            in
              if f1 = f2 then resolve_equal_fvalue f x1 x2 f1 f2 s
              else
                let ((x0, x1, x2, f0, f1, f2, nit), s) =
                      expansion_loop f a b gfactor maxiter x0 x1 x2 f0 f1 f2 0 s
                in
                  if f0 > f1 \<and> f1 < f2 then (Inr (sort_triple x0 x1 x2 f0 f1 f2, 1), s)
                  else if nit = maxiter then (Inr (sort_triple x0 x1 x2 f0 f1 f2, 4), s)
                  else (Inr (sort_triple x0 x1 x2 f0 f1 f2, 2), s))"

section \<open>The orchestrator\<close>

text \<open>
  \<open>minimize\<close> wraps the objective in \<open>func\<close>, which adds one to its attribute \<open>nfev\<close> and
  then calls the objective. The state of \<open>func\<close> is the state of the objective paired
  with \<open>nfev\<close>.
\<close>

definition func :: "'s objective \<Rightarrow> ('s \<times> nat) objective" where
  "func f x st =
     (case st of (s, nfev) \<Rightarrow>
        let nfev = nfev + 1;
            (y, s) = f x s
        in (y, (s, nfev)))"

text \<open>
  \<open>minimize\<close> passes \<open>func\<close> to \<open>brent\<close>, whose module is not among the sources. It is a
  parameter of the model: a procedure that obtains values of the objective only by
  calling the callable it is given, any finite number of times, each abscissa chosen
  from the values seen so far, and then returns or raises. Such a procedure is a tree:
  \<open>Return\<close> ends it with a result, \<open>Evaluate x k\<close> calls the objective at \<open>x\<close> and goes
  on with \<open>k y\<close> for the value \<open>y\<close> received. \<open>exec\<close> runs a procedure on an objective.
  Of the tuple that \<open>brent\<close> returns, \<open>minimize\<close> reads the first two components.
\<close>

datatype 'a procedure = Return 'a | Evaluate real "real \<Rightarrow> 'a procedure"

primrec exec :: "'s objective \<Rightarrow> 'a procedure \<Rightarrow> 's \<Rightarrow> 'a \<times> 's" where
  "exec f (Return v) s = (v, s)"
| "exec f (Evaluate x k) s = (case f x s of (y, s') \<Rightarrow> exec f (k y) s')"

type_synonym brent =
  "real \<Rightarrow> real \<Rightarrow> real \<Rightarrow> real \<Rightarrow> real \<Rightarrow> real \<Rightarrow> real \<Rightarrow> real \<Rightarrow> int
     \<Rightarrow> (error + real \<times> real) procedure"

definition minimize ::
  "brent \<Rightarrow> 's objective \<Rightarrow> real option \<Rightarrow> real option \<Rightarrow> real option \<Rightarrow> real option
     \<Rightarrow> real \<Rightarrow> real \<Rightarrow> real \<Rightarrow> int \<Rightarrow> 's \<Rightarrow> (error + real \<times> real \<times> nat) \<times> 's" where
  "minimize brent f x0 x1 a b gfactor rtol atol maxiter s =
     (case bracket (func f) x0 x1 a b gfactor rtol atol maxiter (s, 0) of
        (Inl e, (s, nfev)) \<Rightarrow> (Inl e, s)
      | (Inr ((x0, x1, x2, f0, f1, f2), ecode), st) \<Rightarrow>
          (case exec (func f) (brent x0 x2 f0 f2 x1 f1 rtol atol maxiter) st of
             (Inl e, (s, nfev)) \<Rightarrow> (Inl e, s)
           | (Inr (x0, f0), (s, nfev)) \<Rightarrow> (Inr (x0, f0, nfev), s)))"

text \<open>
  Instrumenting the callback: \<open>logged f\<close> behaves as \<open>f\<close> and appends the abscissa of
  every invocation to a log kept beside the state of \<open>f\<close>.
\<close>

definition logged :: "'s objective \<Rightarrow> ('s \<times> real list) objective" where
  "logged f x st = (case st of (s, calls) \<Rightarrow> (case f x s of (y, s') \<Rightarrow> (y, (s', calls @ [x]))))"

text \<open>The state after the objective has been called at the points \<open>xs\<close>, one after the other.\<close>

definition after_calls :: "'s objective \<Rightarrow> real list \<Rightarrow> 's \<Rightarrow> 's" where
  "after_calls f xs s = fold (\<lambda>x st. snd (f x st)) xs s"

section \<open>The paths through \<open>bracket\<close>\<close>

text \<open>
  With the assertions on \<open>gfactor\<close> and \<open>maxiter\<close> passed, the two starting points
  evaluated and ordered as \<open>u, v\<close> with values \<open>fu \<ge> fv\<close>, the third point \<open>w\<close> and the
  result of the loop named, \<open>bracket\<close> is a chain of tests.
\<close>

lemma bracket_unfold:
  assumes "gfactor > 1" "maxiter > 0"
    and "initialize_interval x0 x1 a b gfactor rtol atol = (p, q)"
    and "f p s = (fp, s1)" "f q s1 = (fq, s2)"
    and "(u, v, fu, fv) = (if fp < fq then (q, p, fq, fp) else (p, q, fp, fq))"
    and "w = ensure_boundary (v + (v - u) * gfactor) a b"
    and "f w s2 = (fw, s3)"
    and "expansion_loop f a b gfactor maxiter u v w fu fv fw 0 s3 = ((y0, y1, y2, g0, g1, g2, nit), t')"
  shows "bracket f x0 x1 a b gfactor rtol atol maxiter s =
     (if \<bar>u - v\<bar> < 2 * tol u rtol atol then (Inr (sort_triple u v v fu fv fv, 3), s2)
      else if fu = fv then resolve_equal_fvalue f u v fu fv s2
      else if \<not> (lo_le a u \<and> le_hi u b) then (Inl AssertionError, s2)
      else if \<not> (lo_le a v \<and> le_hi v b) then (Inl AssertionError, s2)
      else if \<not> u \<noteq> v then (Inl AssertionError, s2)
      else if \<not> fu \<noteq> fv then (Inl AssertionError, s2)
      else if boundary_equal v a b then (Inr (sort_triple u v v fu fv fv, 2), s2)
      else if fv = fw then resolve_equal_fvalue f v w fv fw s3
      else if g0 > g1 \<and> g1 < g2 then (Inr (sort_triple y0 y1 y2 g0 g1 g2, 1), t')
      else if nit = maxiter then (Inr (sort_triple y0 y1 y2 g0 g1 g2, 4), t')
      else (Inr (sort_triple y0 y1 y2 g0 g1 g2, 2), t'))"
proof -
  have sw: "(if fp < fq then (q, p, fq, fp) else (p, q, fp, fq)) = (u, v, fu, fv)"
    using assms(6) by simp
  have g: "(\<not> 1 < gfactor) = False" "(\<not> 0 < maxiter) = False"
    using assms(1,2) by simp_all
  show ?thesis
    unfolding bracket_def
    by (simp only: g if_False Let_def assms(3,4,5) prod.case sw
          assms(8,9) [unfolded assms(7)] assms(7) cong: if_cong)
qed

lemma bracket_paths [consumes 1, case_names assert_fail too_close equal_start assert_bounds
    boundary_start equal_third loop]:
  assumes run: "bracket f x0 x1 a b gfactor rtol atol maxiter s = (r, t)"
  obtains
    "\<not> (gfactor > 1 \<and> maxiter > 0)" "r = Inl AssertionError" "t = s"
  | p q fp s1 fq s2 u v fu fv where
      "gfactor > 1" "maxiter > 0"
      "initialize_interval x0 x1 a b gfactor rtol atol = (p, q)"
      "f p s = (fp, s1)" "f q s1 = (fq, s2)"
      "(u, v, fu, fv) = (if fp < fq then (q, p, fq, fp) else (p, q, fp, fq))"
      "\<bar>u - v\<bar> < 2 * tol u rtol atol"
      "r = Inr (sort_triple u v v fu fv fv, 3)" "t = s2"
  | p q fp s1 fq s2 u v fu fv where
      "gfactor > 1" "maxiter > 0"
      "initialize_interval x0 x1 a b gfactor rtol atol = (p, q)"
      "f p s = (fp, s1)" "f q s1 = (fq, s2)"
      "(u, v, fu, fv) = (if fp < fq then (q, p, fq, fp) else (p, q, fp, fq))"
      "\<not> \<bar>u - v\<bar> < 2 * tol u rtol atol" "fu = fv"
      "resolve_equal_fvalue f u v fu fv s2 = (r, t)"
  | p q fp s1 fq s2 u v fu fv where
      "gfactor > 1" "maxiter > 0"
      "initialize_interval x0 x1 a b gfactor rtol atol = (p, q)"
      "f p s = (fp, s1)" "f q s1 = (fq, s2)"
      "(u, v, fu, fv) = (if fp < fq then (q, p, fq, fp) else (p, q, fp, fq))"
      "\<not> \<bar>u - v\<bar> < 2 * tol u rtol atol" "fu \<noteq> fv"
      "\<not> (lo_le a u \<and> le_hi u b \<and> lo_le a v \<and> le_hi v b \<and> u \<noteq> v)"
      "r = Inl AssertionError" "t = s2"
  | p q fp s1 fq s2 u v fu fv where
      "gfactor > 1" "maxiter > 0"
      "initialize_interval x0 x1 a b gfactor rtol atol = (p, q)"
      "f p s = (fp, s1)" "f q s1 = (fq, s2)"
      "(u, v, fu, fv) = (if fp < fq then (q, p, fq, fp) else (p, q, fp, fq))"
      "\<not> \<bar>u - v\<bar> < 2 * tol u rtol atol" "fu \<noteq> fv"
      "lo_le a u \<and> le_hi u b \<and> lo_le a v \<and> le_hi v b \<and> u \<noteq> v"
      "boundary_equal v a b"
      "r = Inr (sort_triple u v v fu fv fv, 2)" "t = s2"
  | p q fp s1 fq s2 u v fu fv w fw s3 where
      "gfactor > 1" "maxiter > 0"
      "initialize_interval x0 x1 a b gfactor rtol atol = (p, q)"
      "f p s = (fp, s1)" "f q s1 = (fq, s2)"
      "(u, v, fu, fv) = (if fp < fq then (q, p, fq, fp) else (p, q, fp, fq))"
      "\<not> \<bar>u - v\<bar> < 2 * tol u rtol atol" "fu \<noteq> fv"
      "lo_le a u \<and> le_hi u b \<and> lo_le a v \<and> le_hi v b \<and> u \<noteq> v"
      "\<not> boundary_equal v a b"
      "w = ensure_boundary (v + (v - u) * gfactor) a b" "f w s2 = (fw, s3)"
      "fv = fw" "resolve_equal_fvalue f v w fv fw s3 = (r, t)"
  | p q fp s1 fq s2 u v fu fv w fw s3 y0 y1 y2 g0 g1 g2 nit where
      "gfactor > 1" "maxiter > 0"
      "initialize_interval x0 x1 a b gfactor rtol atol = (p, q)"
      "f p s = (fp, s1)" "f q s1 = (fq, s2)"
      "(u, v, fu, fv) = (if fp < fq then (q, p, fq, fp) else (p, q, fp, fq))"
      "\<not> \<bar>u - v\<bar> < 2 * tol u rtol atol" "fu \<noteq> fv"
      "lo_le a u \<and> le_hi u b \<and> lo_le a v \<and> le_hi v b \<and> u \<noteq> v"
      "\<not> boundary_equal v a b"
      "w = ensure_boundary (v + (v - u) * gfactor) a b" "f w s2 = (fw, s3)"
      "fv \<noteq> fw"
      "expansion_loop f a b gfactor maxiter u v w fu fv fw 0 s3
         = ((y0, y1, y2, g0, g1, g2, nit), t)"
      "r = Inr (sort_triple y0 y1 y2 g0 g1 g2,
                if g0 > g1 \<and> g1 < g2 then 1 else if nit = maxiter then 4 else 2)"
proof (cases "gfactor > 1 \<and> maxiter > 0")
  case False
  then have "bracket f x0 x1 a b gfactor rtol atol maxiter s = (Inl AssertionError, s)"
    by (cases "gfactor > 1") (simp_all add: bracket_def)
  with run that(1) [OF False] show thesis by simp
next
  case True
  obtain p q where init: "initialize_interval x0 x1 a b gfactor rtol atol = (p, q)"
    by (cases "initialize_interval x0 x1 a b gfactor rtol atol")
  obtain fp s1 where e1: "f p s = (fp, s1)" by (cases "f p s")
  obtain fq s2 where e2: "f q s1 = (fq, s2)" by (cases "f q s1")
  obtain u v fu fv where sw: "(u, v, fu, fv) = (if fp < fq then (q, p, fq, fp) else (p, q, fp, fq))"
    by (cases "fp < fq") auto
  note pre = conjunct1 [OF True] conjunct2 [OF True] init e1 e2 sw
  define w where "w = ensure_boundary (v + (v - u) * gfactor) a b"
  obtain fw s3 where e3: "f w s2 = (fw, s3)" by (cases "f w s2")
  obtain y0 y1 y2 g0 g1 g2 nit t' where
    lp: "expansion_loop f a b gfactor maxiter u v w fu fv fw 0 s3 = ((y0, y1, y2, g0, g1, g2, nit), t')"
    by (cases "expansion_loop f a b gfactor maxiter u v w fu fv fw 0 s3") auto
  note br = bracket_unfold [OF pre w_def e3 lp, unfolded run]
  let ?inb = "lo_le a u \<and> le_hi u b \<and> lo_le a v \<and> le_hi v b \<and> u \<noteq> v"
  consider (c1) "\<bar>u - v\<bar> < 2 * tol u rtol atol"
    | (c2) "\<not> \<bar>u - v\<bar> < 2 * tol u rtol atol" "fu = fv"
    | (c3) "\<not> \<bar>u - v\<bar> < 2 * tol u rtol atol" "fu \<noteq> fv" "\<not> ?inb"
    | (c4) "\<not> \<bar>u - v\<bar> < 2 * tol u rtol atol" "fu \<noteq> fv" "?inb" "boundary_equal v a b"
    | (c5) "\<not> \<bar>u - v\<bar> < 2 * tol u rtol atol" "fu \<noteq> fv" "?inb"
        "\<not> boundary_equal v a b" "fv = fw"
    | (c6) "\<not> \<bar>u - v\<bar> < 2 * tol u rtol atol" "fu \<noteq> fv" "?inb"
        "\<not> boundary_equal v a b" "fv \<noteq> fw"
    by blast
  then show thesis
  proof cases
    case c1
    from br have "(r, t) = (Inr (sort_triple u v v fu fv fv, 3), s2)" by (simp add: c1)
    then show thesis using that(2) [OF pre c1] by simp
  next
    case c2
    from br have "(r, t) = resolve_equal_fvalue f u v fu fv s2"
      by (simp add: c2(1) c2(2) [THEN eqTrueI])
    then show thesis using that(3) [OF pre c2] by simp
  next
    case c3
    from c3(3) br have "(r, t) = (Inl AssertionError, s2)"
      by (simp add: c3(1,2) split: if_splits)
    then show thesis using that(4) [OF pre c3] by simp
  next
    case c4
    from br have "(r, t) = (Inr (sort_triple u v v fu fv fv, 2), s2)"
      by (simp add: c4)
    then show thesis using that(5) [OF pre c4] by simp
  next
    case c5
    from br have "(r, t) = resolve_equal_fvalue f v w fv fw s3"
      by (simp add: c5(1-4) c5(5) [THEN eqTrueI])
    then show thesis using that(6) [OF pre c5(1-4) w_def e3 c5(5)] by simp
  next
    case c6
    from br have "(r, t) = (Inr (sort_triple y0 y1 y2 g0 g1 g2,
                if g0 > g1 \<and> g1 < g2 then 1 else if nit = maxiter then 4 else 2), t')"
      by (simp add: c6)
    then show thesis using that(7) [OF pre c6(1-4) w_def e3 c6(5)] lp by simp
  qed
qed

section \<open>Facts about the helpers\<close>

lemma resolve_equal_fvalue_eq:
  "resolve_equal_fvalue f x0 x1 f0 f1 s =
     (Inr (sort_triple x0 (x0 / 2 + x1 / 2) x1 f0 (fst (f (x0 / 2 + x1 / 2) s)) f1,
           if f0 > fst (f (x0 / 2 + x1 / 2) s) \<and> fst (f (x0 / 2 + x1 / 2) s) < f1 then 1 else 5),
      snd (f (x0 / 2 + x1 / 2) s))"
  by (simp add: resolve_equal_fvalue_def Let_def split_def)

lemma sort_triple_valid:
  "sort_triple x0 x1 x2 f0 f1 f2 = (y0, y1, y2, g0, g1, g2)
     \<Longrightarrow> (g0 > g1 \<and> g1 < g2) = (f0 > f1 \<and> f1 < f2)"
  by (auto simp: sort_triple_def split: if_splits)

lemma resolve_equal_fvalue_found:
  assumes "resolve_equal_fvalue f x0 x1 f0 f1 s = (Inr ((y0, y1, y2, g0, g1, g2), c), t)"
    and "c = 1"
  shows "g0 > g1 \<and> g1 < g2"
proof -
  let ?fm = "fst (f (x0 / 2 + x1 / 2) s)"
  from assms have st: "sort_triple x0 (x0 / 2 + x1 / 2) x1 f0 ?fm f1 = (y0, y1, y2, g0, g1, g2)"
    and c: "(if f0 > ?fm \<and> ?fm < f1 then 1 else 5) = (1::nat)"
    unfolding resolve_equal_fvalue_eq by simp_all
  from c have "f0 > ?fm \<and> ?fm < f1" by (simp split: if_splits)
  with sort_triple_valid [OF st] show ?thesis by simp
qed

lemmas bracket_defs = lo_le_def lo_lt_def le_hi_def lt_hi_def max_lo_def min_hi_def
  sort_triple_def boundary_equal_def boundary_inside_def ensure_boundary_def tol_def
  initialize_interval_def resolve_equal_fvalue_def stateless_def eps_def

section \<open>A status "found" comes with a valid bracket\<close>

text \<open>
  Claim C9. For every objective, stateless or not, and every input: when \<open>bracket\<close>
  returns exit code 1, the function values of the returned triple satisfy
  \<open>f0 > f1 < f2\<close>.
\<close>

theorem bracket_found_valid:
  assumes "bracket f x0 x1 a b gfactor rtol atol maxiter s = (Inr ((y0, y1, y2, g0, g1, g2), 1), t)"
  shows "g0 > g1 \<and> g1 < g2"
  using assms
proof (cases rule: bracket_paths)
  case (equal_start p q fp s1 fq s2 u v fu fv)
  show ?thesis by (rule resolve_equal_fvalue_found [OF equal_start(9) refl])
next
  case (equal_third p q fp s1 fq s2 u v fu fv w fw s3)
  show ?thesis by (rule resolve_equal_fvalue_found [OF equal_third(14) refl])
next
  case (loop p q fp s1 fq s2 u v fu fv w fw s3 z0 z1 z2 h0 h1 h2 nit)
  from loop(15) have "h0 > h1 \<and> h1 < h2" and "sort_triple z0 z1 z2 h0 h1 h2 = (y0, y1, y2, g0, g1, g2)"
    by (auto split: if_splits)
  then show ?thesis by (simp add: sort_triple_valid)
qed simp_all

text \<open>
  The objective \<open>(x - 2)\<^sup>2\<close> from the starting points 0 and 1: the third point is 3, where
  the value equals the one at 1, and the bisection at 2 gives the bracket \<open>(1, 2, 3)\<close>.
\<close>

lemma bracket_square_0_1:
  "bracket (stateless (\<lambda>x. (x - 2)\<^sup>2)) (Some 0) (Some 1) None None 2 eps eps 500 ()
     = (Inr ((1, 2, 3, 1, 0, 1), 1), ())"
  by (simp add: bracket_def bracket_defs Let_def)

theorem bracket_found_valid_witness:
  "bracket (stateless (\<lambda>x. (x - 2)\<^sup>2)) (Some 0) (Some 1) None None 2 eps eps 500 ()
     = (Inr ((1, 2, 3, 1, 0, 1), 1), ()) \<and> (1::real) > 0 \<and> (0::real) < 1"
  using bracket_found_valid [of "stateless (\<lambda>x. (x - 2)\<^sup>2)" "Some 0" "Some 1" None None 2 eps eps 500 "()"
      1 2 3 1 0 1 "()"] bracket_square_0_1
  by simp

section \<open>A stateless objective\<close>

text \<open>The chain of tests for a mathematical function \<open>g\<close>: the state is never changed.\<close>

lemma bracket_stateless:
  assumes "gfactor > 1" "maxiter > 0"
    and "initialize_interval x0 x1 a b gfactor rtol atol = (p, q)"
    and "(u, v) = (if g p < g q then (q, p) else (p, q))"
    and "w = ensure_boundary (v + (v - u) * gfactor) a b"
  shows "bracket (stateless g) x0 x1 a b gfactor rtol atol maxiter s =
     (if \<bar>u - v\<bar> < 2 * tol u rtol atol then (Inr (sort_triple u v v (g u) (g v) (g v), 3), s)
      else if g u = g v then resolve_equal_fvalue (stateless g) u v (g u) (g v) s
      else if \<not> (lo_le a u \<and> le_hi u b) then (Inl AssertionError, s)
      else if \<not> (lo_le a v \<and> le_hi v b) then (Inl AssertionError, s)
      else if \<not> u \<noteq> v then (Inl AssertionError, s)
      else if \<not> g u \<noteq> g v then (Inl AssertionError, s)
      else if boundary_equal v a b then (Inr (sort_triple u v v (g u) (g v) (g v), 2), s)
      else if g v = g w then resolve_equal_fvalue (stateless g) v w (g v) (g w) s
      else case expansion_loop (stateless g) a b gfactor maxiter u v w (g u) (g v) (g w) 0 s of
        ((y0, y1, y2, g0, g1, g2, nit), t) \<Rightarrow>
          if g0 > g1 \<and> g1 < g2 then (Inr (sort_triple y0 y1 y2 g0 g1 g2, 1), t)
          else if nit = maxiter then (Inr (sort_triple y0 y1 y2 g0 g1 g2, 4), t)
          else (Inr (sort_triple y0 y1 y2 g0 g1 g2, 2), t))"
proof -
  obtain y0 y1 y2 g0 g1 g2 nit t where
    lp: "expansion_loop (stateless g) a b gfactor maxiter u v w (g u) (g v) (g w) 0 s
           = ((y0, y1, y2, g0, g1, g2, nit), t)"
    by (cases "expansion_loop (stateless g) a b gfactor maxiter u v w (g u) (g v) (g w) 0 s") auto
  have sw: "(u, v, g u, g v) = (if g p < g q then (q, p, g q, g p) else (p, q, g p, g q))"
    using assms(4) by (cases "g p < g q") simp_all
  have e: "stateless g p s = (g p, s)" "stateless g q s = (g q, s)" "stateless g w s = (g w, s)"
    by (simp_all add: stateless_def)
  show ?thesis
    unfolding bracket_unfold [OF assms(1-3) e(1,2) sw assms(5) e(3) lp]
    by (simp only: lp prod.case)
qed

section \<open>Starting points that are too close\<close>

text \<open>
  Claim C7. Let \<open>u, v\<close> be the two initial points ordered so that \<open>g u \<ge> g v\<close>. If
  \<open>\<bar>u - v\<bar> < 2 * (\<bar>u\<bar> * rtol + atol)\<close>, then \<open>bracket\<close> returns exit code 3 with the
  collapsed triple: \<open>v\<close> is there twice, and the three points are in ascending order.
  The assertions on \<open>gfactor\<close> and \<open>maxiter\<close> come first in the code, so they are assumed.
\<close>


theorem bracket_too_close:
  assumes "gfactor > 1" and "maxiter > 0"
    and "initialize_interval x0 x1 a b gfactor rtol atol = (p, q)"
    and "(u, v) = (if g p < g q then (q, p) else (p, q))"
    and "\<bar>u - v\<bar> < 2 * (\<bar>u\<bar> * rtol + atol)"
  shows "g u \<ge> g v \<and>
         bracket (stateless g) x0 x1 a b gfactor rtol atol maxiter s =
           (Inr (if u > v then (v, v, u, g v, g v, g u) else (u, v, v, g u, g v, g v), 3), s)"
proof -
  have "g u \<ge> g v" using assms(4) by (cases "g p < g q") simp_all
  moreover have "\<bar>u - v\<bar> < 2 * tol u rtol atol" using assms(5) by (simp add: tol_def)
  then have "bracket (stateless g) x0 x1 a b gfactor rtol atol maxiter s =
      (Inr (sort_triple u v v (g u) (g v) (g v), 3), s)"
    unfolding bracket_stateless [OF assms(1-4) refl] by (simp only: if_True)
  ultimately show ?thesis by (simp add: sort_triple_def)
qed

text \<open>
  The identity from the starting points 0 and 1 with \<open>rtol = 0\<close> and \<open>atol = 1\<close>: the points
  are reordered to \<open>u = 1, v = 0\<close>, and \<open>1 < 2\<close>.
\<close>

theorem bracket_too_close_witness:
  "(2::real) > 1 \<and> (500::int) > 0
   \<and> initialize_interval (Some 0) (Some 1) None None 2 0 1 = (0, 1)
   \<and> ((1::real), (0::real)) = (if (0::real) < 1 then (1, 0) else (0, 1))
   \<and> \<bar>(1::real) - 0\<bar> < 2 * (\<bar>1\<bar> * 0 + 1)
   \<and> bracket (stateless (\<lambda>x. x)) (Some 0) (Some 1) None None 2 0 1 500 ()
        = (Inr ((0, 0, 1, 0, 0, 1), 3), ())"
  using bracket_too_close [of 2 500 "Some 0" "Some 1" None None 0 1 0 1 1 0 "\<lambda>x. x" "()"]
  by (simp add: initialize_interval_def)

section \<open>Starting points with equal values\<close>

lemma logged_calls: "logged f x st = (y, t) \<Longrightarrow> snd t = snd st @ [x]"
  by (auto simp: logged_def split: prod.splits)

lemma logged_stateless: "logged (stateless g) x (s, cs) = (g x, (s, cs @ [x]))"
  by (simp add: logged_def stateless_def)

text \<open>
  Claim C5 says that whenever the two current points have equal values, \<open>bracket\<close>
  bisects them, evaluates the midpoint and returns "found" or "not-strictly-convex".
  The test for points that are too close comes before the test for equal values: the
  constant function 0 from the starting points 0 and 1 with \<open>atol = 1\<close> has equal values
  at both, and \<open>bracket\<close> returns exit code 3 after its two evaluations, at 0 and at 1,
  without evaluating the midpoint.
\<close>

theorem equal_values_too_close_counterexample:
  "(\<lambda>x::real. 0::real) 0 = (\<lambda>x::real. 0::real) 1
   \<and> bracket (logged (stateless (\<lambda>x. 0))) (Some 0) (Some 1) None None 2 0 1 500 ((), [])
        = (Inr ((0, 1, 1, 0, 0, 0), 3), ((), [0, 1]))"
  by (simp add: bracket_def bracket_defs logged_def Let_def)

text \<open>
  Claim C5, amended. When the two starting points have equal values and are not too
  close, \<open>bracket\<close> evaluates the objective three times, at the two points and at
  their midpoint \<open>p/2 + q/2\<close>, and returns the sorted triple with the midpoint in the
  middle, with exit code 1 if the values form a bracket and 5 otherwise. For the
  constant function 0 from the starting points 0 and 1, whatever the bounds and the
  tolerances, the exit code is 3 or 5.
\<close>

theorem bracket_equal_values:
  assumes "gfactor > 1" and "maxiter > 0"
    and "initialize_interval x0 x1 a b gfactor rtol atol = (p, q)"
    and "g p = g q"
    and "\<not> \<bar>p - q\<bar> < 2 * tol p rtol atol"
    and "m = p / 2 + q / 2"
  shows "bracket (logged (stateless g)) x0 x1 a b gfactor rtol atol maxiter (s, []) =
           (Inr (sort_triple p m q (g p) (g m) (g q), if g p > g m \<and> g m < g q then 1 else 5),
            (s, [p, q, m]))
         \<and> bracket (stateless (\<lambda>x. 0)) (Some 0) (Some 1) a b gfactor rtol atol maxiter s =
           (if 1 < 2 * atol then (Inr ((0, 1, 1, 0, 0, 0), 3), s)
            else (Inr ((0, 1 / 2, 1, 0, 0, 0), 5), s))"
proof
  let ?f = "logged (stateless g)"
  define w where "w = ensure_boundary (q + (q - p) * gfactor) a b"
  obtain y0 y1 y2 g0 g1 g2 nit t where
    lp: "expansion_loop ?f a b gfactor maxiter p q w (g p) (g q) (g w) 0 (s, [p, q, w])
           = ((y0, y1, y2, g0, g1, g2, nit), t)"
    by (cases "expansion_loop ?f a b gfactor maxiter p q w (g p) (g q) (g w) 0 (s, [p, q, w])") auto
  have sw: "(p, q, g p, g q) = (if g p < g q then (q, p, g q, g p) else (p, q, g p, g q))"
    using assms(4) by simp
  have e: "?f p (s, []) = (g p, (s, [p]))" "?f q (s, [p]) = (g q, (s, [p, q]))"
    "?f w (s, [p, q]) = (g w, (s, [p, q, w]))"
    by (simp_all add: logged_stateless)
  have "bracket ?f x0 x1 a b gfactor rtol atol maxiter (s, []) =
      resolve_equal_fvalue ?f p q (g p) (g q) (s, [p, q])"
    unfolding bracket_unfold [OF assms(1-3) e(1,2) sw w_def e(3) lp]
    by (simp add: assms(5) assms(4) [THEN eqTrueI])
  then show "bracket ?f x0 x1 a b gfactor rtol atol maxiter (s, []) =
           (Inr (sort_triple p m q (g p) (g m) (g q), if g p > g m \<and> g m < g q then 1 else 5),
            (s, [p, q, m]))"
    by (simp add: resolve_equal_fvalue_eq logged_stateless assms(6))
next
  have i: "initialize_interval (Some 0) (Some 1) a b gfactor rtol atol = (0, 1)"
    by (simp add: initialize_interval_def)
  have sw: "((0::real), (1::real)) = (if (\<lambda>x::real. 0::real) 0 < (\<lambda>x::real. 0::real) 1 then (1, 0) else (0, 1))"
    by simp
  show "bracket (stateless (\<lambda>x. 0)) (Some 0) (Some 1) a b gfactor rtol atol maxiter s =
           (if 1 < 2 * atol then (Inr ((0, 1, 1, 0, 0, 0), 3), s)
            else (Inr ((0, 1 / 2, 1, 0, 0, 0), 5), s))"
    unfolding bracket_stateless [OF assms(1,2) i sw refl]
    by (simp add: tol_def resolve_equal_fvalue_eq stateless_def sort_triple_def)
qed

text \<open>
  The objective \<open>(x - 2)\<^sup>2\<close> from 0 and 4 is bisected at 2 and bracketed there; the
  constant function 0 with the default tolerances gets exit code 5.
\<close>

theorem bracket_equal_values_witness:
  "(2::real) > 1 \<and> (500::int) > 0
   \<and> initialize_interval (Some 0) (Some 4) None None 2 eps eps = (0, 4)
   \<and> (\<lambda>x::real. (x - 2)\<^sup>2) 0 = (\<lambda>x::real. (x - 2)\<^sup>2) 4
   \<and> \<not> \<bar>(0::real) - 4\<bar> < 2 * tol 0 eps eps
   \<and> bracket (logged (stateless (\<lambda>x. (x - 2)\<^sup>2))) (Some 0) (Some 4) None None 2 eps eps 500 ((), [])
        = (Inr ((0, 2, 4, 4, 0, 4), 1), ((), [0, 4, 2]))
   \<and> bracket (stateless (\<lambda>x. 0)) (Some 0) (Some 1) None None 2 eps eps 500 ()
        = (Inr ((0, 1 / 2, 1, 0, 0, 0), 5), ())"
  using bracket_equal_values [of 2 500 "Some 0" "Some 4" None None eps eps 0 4 "\<lambda>x. (x - 2)\<^sup>2" 2 "()"]
  by (simp add: initialize_interval_def tol_def eps_def sort_triple_def)

section \<open>The assertions on the inputs\<close>

lemma resolve_equal_fvalue_code:
  "resolve_equal_fvalue f x0 x1 f0 f1 s = (r, t)
     \<Longrightarrow> (case r of Inl e \<Rightarrow> False | Inr (tr, c) \<Rightarrow> c = 1 \<or> c = 5)"
  unfolding resolve_equal_fvalue_eq by auto

text \<open>
  Claim C3 says that \<open>gfactor \<le> 1\<close>, \<open>maxiter \<le> 0\<close> and bounds \<open>a > b\<close> each fail with an
  assertion at call time. The code asserts \<open>gfactor > 1\<close> and \<open>maxiter > 0\<close> first, and has
  no test of \<open>a \<le> b\<close>: with \<open>a = 5\<close> and \<open>b = -5\<close>, the objective \<open>(x - 2)\<^sup>2\<close> from the
  starting points 0 and 4 is bracketed with exit code 1.
\<close>

theorem bounds_not_checked_counterexample:
  "(5::real) > - 5
   \<and> bracket (stateless (\<lambda>x. (x - 2)\<^sup>2)) (Some 0) (Some 4) (Some 5) (Some (- 5)) 2 eps eps 500 ()
        = (Inr ((0, 2, 4, 4, 0, 4), 1), ())"
  by (simp add: bracket_def bracket_defs Let_def)

text \<open>
  Claim C3, amended. With \<open>gfactor \<le> 1\<close> or \<open>maxiter \<le> 0\<close>, \<open>bracket\<close> fails with an
  assertion before the objective is evaluated: the state is the one it was called with.
  Bounds \<open>a > b\<close> are not tested at call time: such a call either returns with exit
  code 3, 1 or 5 (points too close, or of equal values), or fails at the assertion
  \<open>a \<le> x0 \<le> b\<close>, after exactly two evaluations of the objective.
\<close>

theorem bracket_assertions:
  "(gfactor \<le> 1 \<or> maxiter \<le> 0 \<longrightarrow>
      bracket f x0 x1 a b gfactor rtol atol maxiter s = (Inl AssertionError, s))
   \<and> (gfactor > 1 \<and> maxiter > 0 \<and> a = Some l \<and> b = Some h \<and> l > h \<longrightarrow>
      (case bracket (logged f) x0 x1 a b gfactor rtol atol maxiter (s, []) of
         (Inl e, t) \<Rightarrow> length (snd t) = 2
       | (Inr (tr, c), t) \<Rightarrow> c = 1 \<or> c = 3 \<or> c = 5))"
proof (intro conjI impI)
  assume "gfactor \<le> 1 \<or> maxiter \<le> 0"
  then show "bracket f x0 x1 a b gfactor rtol atol maxiter s = (Inl AssertionError, s)"
    by (cases "gfactor > 1") (auto simp: bracket_def)
next
  assume h: "gfactor > 1 \<and> maxiter > 0 \<and> a = Some l \<and> b = Some h \<and> l > h"
  then have nob: "\<not> (lo_le a u \<and> le_hi u b)" for u
    by (auto simp: lo_le_def le_hi_def)
  obtain r t where run: "bracket (logged f) x0 x1 a b gfactor rtol atol maxiter (s, []) = (r, t)"
    by (cases "bracket (logged f) x0 x1 a b gfactor rtol atol maxiter (s, [])")
  from run have "case (r, t) of (Inl e, t) \<Rightarrow> length (snd t) = 2
       | (Inr (tr, c), t) \<Rightarrow> c = 1 \<or> c = 3 \<or> c = 5"
  proof (cases rule: bracket_paths)
    case assert_fail
    with h show ?thesis by simp
  next
    case (too_close p q fp s1 fq s2 u v fu fv)
    then show ?thesis by simp
  next
    case (equal_start p q fp s1 fq s2 u v fu fv)
    from resolve_equal_fvalue_code [OF equal_start(9)] show ?thesis
      by (auto split: sum.splits)
  next
    case (assert_bounds p q fp s1 fq s2 u v fu fv)
    have "snd s1 = [p]" using logged_calls [OF assert_bounds(4)] by simp
    then have "snd s2 = [p, q]" using logged_calls [OF assert_bounds(5)] by simp
    with assert_bounds show ?thesis by simp
  next
    case (boundary_start p q fp s1 fq s2 u v fu fv)
    with nob show ?thesis by blast
  next
    case (equal_third p q fp s1 fq s2 u v fu fv w fw s3)
    with nob show ?thesis by blast
  next
    case (loop p q fp s1 fq s2 u v fu fv w fw s3 y0 y1 y2 g0 g1 g2 nit)
    with nob show ?thesis by blast
  qed
  with run show "case bracket (logged f) x0 x1 a b gfactor rtol atol maxiter (s, []) of
         (Inl e, t) \<Rightarrow> length (snd t) = 2
       | (Inr (tr, c), t) \<Rightarrow> c = 1 \<or> c = 3 \<or> c = 5" by simp
qed

text \<open>
  With \<open>gfactor = 1\<close> the call fails at once; with \<open>a = 5\<close>, \<open>b = -5\<close> and the starting
  points 0 and 1 it fails after the evaluations at 0 and at 1.
\<close>

theorem bracket_assertions_witness:
  "((1::real) \<le> 1 \<or> (500::int) \<le> 0)
   \<and> bracket (stateless (\<lambda>x. (x - 2)\<^sup>2)) (Some 0) (Some 1) None None 1 eps eps 500 ()
        = (Inl AssertionError, ())
   \<and> ((2::real) > 1 \<and> (500::int) > 0 \<and> (5::real) > - 5)
   \<and> bracket (logged (stateless (\<lambda>x. (x - 2)\<^sup>2))) (Some 0) (Some 1) (Some 5) (Some (- 5))
        2 eps eps 500 ((), [])
        = (Inl AssertionError, ((), [0, 1]))"
  using bracket_assertions [of 1 500 "stateless (\<lambda>x. (x - 2)\<^sup>2)" "Some 0" "Some 1" None None eps eps "()" 0 0]
    bracket_assertions [of 2 500 "stateless (\<lambda>x. (x - 2)\<^sup>2)" "Some 0" "Some 1" "Some 5" "Some (- 5)" eps eps "()" 5 "- 5"]
  by (simp add: bracket_def bracket_defs logged_def Let_def)

section \<open>The expansion loop\<close>

text \<open>Clamping: the next point lies beyond the newest one, within the bounds.\<close>

lemma ensure_boundary_up:
  assumes "gfactor > 1" "x1 < x2" "boundary_inside x2 a b"
  shows "x2 < ensure_boundary (x2 + gfactor * (x2 - x1)) a b"
proof -
  have "gfactor * (x2 - x1) > 0" using assms(1,2) by simp
  then have "x2 < x2 + gfactor * (x2 - x1)" by simp
  with assms(3) show ?thesis
    by (cases a; cases b) (simp_all add: ensure_boundary_def boundary_inside_def lo_lt_def
        lt_hi_def max_lo_def min_hi_def)
qed

lemma ensure_boundary_down:
  assumes "gfactor > 1" "x2 < x1" "boundary_inside x2 a b"
  shows "ensure_boundary (x2 + gfactor * (x2 - x1)) a b < x2"
proof -
  have "gfactor * (x1 - x2) > 0" using assms(1,2) by simp
  then have "x2 + gfactor * (x2 - x1) < x2" by (simp add: algebra_simps)
  with assms(3) show ?thesis
    by (cases a; cases b) (simp_all add: ensure_boundary_def boundary_inside_def lo_lt_def
        lt_hi_def max_lo_def min_hi_def)
qed

lemma ensure_boundary_within:
  assumes "lo_le a y" "le_hi y b"
  shows "lo_le a (ensure_boundary x a b) \<and> le_hi (ensure_boundary x a b) b"
  using assms
  by (cases a; cases b) (simp_all add: ensure_boundary_def lo_le_def le_hi_def max_lo_def min_hi_def)


text \<open>
  One iteration, the exit, and the invariant rule: what holds before the loop and is
  kept by every iteration holds after it, where the loop condition is false.
\<close>

lemma expansion_loop_step:
  assumes "\<not> (f0 > f1 \<and> f1 < f2) \<and> nit < maxiter \<and> boundary_inside x2 a b"
    and "xt = ensure_boundary (x2 + gfactor * (x2 - x1)) a b"
  shows "expansion_loop f a b gfactor maxiter x0 x1 x2 f0 f1 f2 nit s =
     expansion_loop f a b gfactor maxiter x1 x2 xt f1 f2 (fst (f xt s)) (nit + 1) (snd (f xt s))"
  by (subst expansion_loop.simps) (simp only: if_P [OF assms(1)] Let_def assms(2))

lemma expansion_loop_stop:
  assumes "\<not> (\<not> (f0 > f1 \<and> f1 < f2) \<and> nit < maxiter \<and> boundary_inside x2 a b)"
  shows "expansion_loop f a b gfactor maxiter x0 x1 x2 f0 f1 f2 nit s =
     ((x0, x1, x2, f0, f1, f2, nit), s)"
  by (subst expansion_loop.simps) (simp only: if_not_P [OF assms])

lemma expansion_loop_rule:
  assumes "P x0 x1 x2 f0 f1 f2 nit s"
    and "\<And>x0 x1 x2 f0 f1 f2 nit s xt.
            P x0 x1 x2 f0 f1 f2 nit s \<Longrightarrow> \<not> (f0 > f1 \<and> f1 < f2) \<Longrightarrow> nit < maxiter
              \<Longrightarrow> boundary_inside x2 a b
              \<Longrightarrow> xt = ensure_boundary (x2 + gfactor * (x2 - x1)) a b
              \<Longrightarrow> P x1 x2 xt f1 f2 (fst (f xt s)) (nit + 1) (snd (f xt s))"
    and "expansion_loop f a b gfactor maxiter x0 x1 x2 f0 f1 f2 nit s
           = ((y0, y1, y2, g0, g1, g2, n), t)"
  shows "P y0 y1 y2 g0 g1 g2 n t
         \<and> \<not> (\<not> (g0 > g1 \<and> g1 < g2) \<and> n < maxiter \<and> boundary_inside y2 a b)"
  using assms
proof (induction f a b gfactor maxiter x0 x1 x2 f0 f1 f2 nit s rule: expansion_loop.induct)
  case (1 f a b gfactor maxiter x0 x1 x2 f0 f1 f2 nit s)
  show ?case
  proof (cases "\<not> (f0 > f1 \<and> f1 < f2) \<and> nit < maxiter \<and> boundary_inside x2 a b")
    case True
    define xt where "xt = ensure_boundary (x2 + gfactor * (x2 - x1)) a b"
    have P': "P x1 x2 xt f1 f2 (fst (f xt s)) (nit + 1) (snd (f xt s))"
      using "1.prems"(2) [OF "1.prems"(1) _ _ _ xt_def] True by blast
    have run: "expansion_loop f a b gfactor maxiter x1 x2 xt f1 f2 (fst (f xt s)) (nit + 1)
        (snd (f xt s)) = ((y0, y1, y2, g0, g1, g2, n), t)"
      using "1.prems"(3) unfolding expansion_loop_step [OF True xt_def] .
    show ?thesis
      by (rule "1.IH" [OF True xt_def P' _ run]) (rule "1.prems"(2); assumption)
  next
    case False
    with "1.prems"(1,3) show ?thesis
      unfolding expansion_loop_stop [OF False] by simp
  qed
qed

section \<open>The paths for a stateless objective\<close>

text \<open>
  For a mathematical function \<open>g\<close> the values are \<open>g\<close> at the points and the state stays
  as it is; the two bisections are written out.
\<close>

lemma bracket_stateless_paths [consumes 1, case_names assert_fail too_close equal_start
    assert_bounds boundary_start equal_third loop]:
  assumes run: "bracket (stateless g) x0 x1 a b gfactor rtol atol maxiter s = (r, t)"
  obtains
    "\<not> (gfactor > 1 \<and> maxiter > 0)" "r = Inl AssertionError" "t = s"
  | p q u v where
      "gfactor > 1" "maxiter > 0"
      "initialize_interval x0 x1 a b gfactor rtol atol = (p, q)"
      "(u, v) = (if g p < g q then (q, p) else (p, q))"
      "\<bar>u - v\<bar> < 2 * tol u rtol atol"
      "r = Inr (sort_triple u v v (g u) (g v) (g v), 3)" "t = s"
  | p q u v where
      "gfactor > 1" "maxiter > 0"
      "initialize_interval x0 x1 a b gfactor rtol atol = (p, q)"
      "(u, v) = (if g p < g q then (q, p) else (p, q))"
      "\<not> \<bar>u - v\<bar> < 2 * tol u rtol atol" "g u = g v"
      "r = Inr (sort_triple u (u / 2 + v / 2) v (g u) (g (u / 2 + v / 2)) (g v),
                if g u > g (u / 2 + v / 2) \<and> g (u / 2 + v / 2) < g v then 1 else 5)" "t = s"
  | p q u v where
      "gfactor > 1" "maxiter > 0"
      "initialize_interval x0 x1 a b gfactor rtol atol = (p, q)"
      "(u, v) = (if g p < g q then (q, p) else (p, q))"
      "\<not> \<bar>u - v\<bar> < 2 * tol u rtol atol" "g u \<noteq> g v"
      "\<not> (lo_le a u \<and> le_hi u b \<and> lo_le a v \<and> le_hi v b \<and> u \<noteq> v)"
      "r = Inl AssertionError" "t = s"
  | p q u v where
      "gfactor > 1" "maxiter > 0"
      "initialize_interval x0 x1 a b gfactor rtol atol = (p, q)"
      "(u, v) = (if g p < g q then (q, p) else (p, q))"
      "\<not> \<bar>u - v\<bar> < 2 * tol u rtol atol" "g u \<noteq> g v"
      "lo_le a u \<and> le_hi u b \<and> lo_le a v \<and> le_hi v b \<and> u \<noteq> v"
      "boundary_equal v a b"
      "r = Inr (sort_triple u v v (g u) (g v) (g v), 2)" "t = s"
  | p q u v w where
      "gfactor > 1" "maxiter > 0"
      "initialize_interval x0 x1 a b gfactor rtol atol = (p, q)"
      "(u, v) = (if g p < g q then (q, p) else (p, q))"
      "\<not> \<bar>u - v\<bar> < 2 * tol u rtol atol" "g u \<noteq> g v"
      "lo_le a u \<and> le_hi u b \<and> lo_le a v \<and> le_hi v b \<and> u \<noteq> v"
      "\<not> boundary_equal v a b"
      "w = ensure_boundary (v + (v - u) * gfactor) a b"
      "g v = g w"
      "r = Inr (sort_triple v (v / 2 + w / 2) w (g v) (g (v / 2 + w / 2)) (g w),
                if g v > g (v / 2 + w / 2) \<and> g (v / 2 + w / 2) < g w then 1 else 5)" "t = s"
  | p q u v w y0 y1 y2 g0 g1 g2 nit where
      "gfactor > 1" "maxiter > 0"
      "initialize_interval x0 x1 a b gfactor rtol atol = (p, q)"
      "(u, v) = (if g p < g q then (q, p) else (p, q))"
      "\<not> \<bar>u - v\<bar> < 2 * tol u rtol atol" "g u \<noteq> g v"
      "lo_le a u \<and> le_hi u b \<and> lo_le a v \<and> le_hi v b \<and> u \<noteq> v"
      "\<not> boundary_equal v a b"
      "w = ensure_boundary (v + (v - u) * gfactor) a b"
      "g v \<noteq> g w"
      "expansion_loop (stateless g) a b gfactor maxiter u v w (g u) (g v) (g w) 0 s
         = ((y0, y1, y2, g0, g1, g2, nit), t)"
      "r = Inr (sort_triple y0 y1 y2 g0 g1 g2,
                if g0 > g1 \<and> g1 < g2 then 1 else if nit = maxiter then 4 else 2)"
  using run
proof (cases rule: bracket_paths)
  case assert_fail
  then show ?thesis using that(1) by blast
next
  case (too_close p q fp s1 fq s2 u v fu fv)
  have st: "fp = g p" "s1 = s" "fq = g q" "s2 = s"
    using too_close(4,5) by (simp_all add: stateless_def)
  have sw: "(u, v) = (if g p < g q then (q, p) else (p, q))" "fu = g u" "fv = g v"
    using too_close(6) unfolding st by (simp_all split: if_splits)
  show ?thesis
    using that(2) [OF too_close(1-3) sw(1) too_close(7)] too_close(8,9) unfolding sw st by blast
next
  case (equal_start p q fp s1 fq s2 u v fu fv)
  have st: "fp = g p" "s1 = s" "fq = g q" "s2 = s"
    using equal_start(4,5) by (simp_all add: stateless_def)
  have sw: "(u, v) = (if g p < g q then (q, p) else (p, q))" "fu = g u" "fv = g v"
    using equal_start(6) unfolding st by (simp_all split: if_splits)
  have "r = Inr (sort_triple u (u / 2 + v / 2) v (g u) (g (u / 2 + v / 2)) (g v),
                if g u > g (u / 2 + v / 2) \<and> g (u / 2 + v / 2) < g v then 1 else 5)" "t = s"
    using equal_start(9) unfolding sw st resolve_equal_fvalue_eq by (simp_all add: stateless_def)
  then show ?thesis
    using that(3) [OF equal_start(1-3) sw(1) equal_start(7)] equal_start(8) unfolding sw by blast
next
  case (assert_bounds p q fp s1 fq s2 u v fu fv)
  have st: "fp = g p" "s1 = s" "fq = g q" "s2 = s"
    using assert_bounds(4,5) by (simp_all add: stateless_def)
  have sw: "(u, v) = (if g p < g q then (q, p) else (p, q))" "fu = g u" "fv = g v"
    using assert_bounds(6) unfolding st by (simp_all split: if_splits)
  show ?thesis
    using that(4) [OF assert_bounds(1-3) sw(1) assert_bounds(7)] assert_bounds(8-11)
    unfolding sw st by blast
next
  case (boundary_start p q fp s1 fq s2 u v fu fv)
  have st: "fp = g p" "s1 = s" "fq = g q" "s2 = s"
    using boundary_start(4,5) by (simp_all add: stateless_def)
  have sw: "(u, v) = (if g p < g q then (q, p) else (p, q))" "fu = g u" "fv = g v"
    using boundary_start(6) unfolding st by (simp_all split: if_splits)
  show ?thesis
    using that(5) [OF boundary_start(1-3) sw(1) boundary_start(7)] boundary_start(8-12)
    unfolding sw st by blast
next
  case (equal_third p q fp s1 fq s2 u v fu fv w fw s3)
  have st: "fp = g p" "s1 = s" "fq = g q" "s2 = s"
    using equal_third(4,5) by (simp_all add: stateless_def)
  have sw: "(u, v) = (if g p < g q then (q, p) else (p, q))" "fu = g u" "fv = g v"
    using equal_third(6) unfolding st by (simp_all split: if_splits)
  have st3: "fw = g w" "s3 = s"
    using equal_third(12) unfolding st by (simp_all add: stateless_def)
  have "r = Inr (sort_triple v (v / 2 + w / 2) w (g v) (g (v / 2 + w / 2)) (g w),
                if g v > g (v / 2 + w / 2) \<and> g (v / 2 + w / 2) < g w then 1 else 5)" "t = s"
    using equal_third(14) unfolding sw st st3 resolve_equal_fvalue_eq
    by (simp_all add: stateless_def)
  then show ?thesis
    using that(6) [OF equal_third(1-3) sw(1) equal_third(7) _ equal_third(9,10,11)]
      equal_third(8,13) unfolding sw st3 by blast
next
  case (loop p q fp s1 fq s2 u v fu fv w fw s3 y0 y1 y2 g0 g1 g2 nit)
  have st: "fp = g p" "s1 = s" "fq = g q" "s2 = s"
    using loop(4,5) by (simp_all add: stateless_def)
  have sw: "(u, v) = (if g p < g q then (q, p) else (p, q))" "fu = g u" "fv = g v"
    using loop(6) unfolding st by (simp_all split: if_splits)
  have st3: "fw = g w" "s3 = s"
    using loop(12) unfolding st by (simp_all add: stateless_def)
  show ?thesis
    using that(7) [OF loop(1-3) sw(1) loop(7) _ loop(9,10,11)]
      loop(8,13,14,15) unfolding sw st3 by blast
qed


lemma within_not_equal_inside:
  "lo_le a x \<Longrightarrow> le_hi x b \<Longrightarrow> \<not> boundary_equal x a b \<Longrightarrow> boundary_inside x a b"
  by (cases a; cases b) (auto simp: boundary_inside_def boundary_equal_def lo_lt_def lt_hi_def
      lo_le_def le_hi_def)

lemma expansion_loop_order:
  assumes "gfactor > 1"
    and "(x0 < x1 \<and> x1 < x2) \<or> (x0 > x1 \<and> x1 > x2)"
    and run: "expansion_loop f a b gfactor maxiter x0 x1 x2 f0 f1 f2 nit s
           = ((y0, y1, y2, g0, g1, g2, n), t)"
  shows "(y0 < y1 \<and> y1 < y2) \<or> (y0 > y1 \<and> y1 > y2)"
proof -
  have "((y0 < y1 \<and> y1 < y2) \<or> (y0 > y1 \<and> y1 > y2))
      \<and> \<not> (\<not> (g0 > g1 \<and> g1 < g2) \<and> n < maxiter \<and> boundary_inside y2 a b)"
  proof (rule expansion_loop_rule [where P = "\<lambda>x0 x1 x2 f0 f1 f2 nit s.
        (x0 < x1 \<and> x1 < x2) \<or> (x0 > x1 \<and> x1 > x2)", OF _ _ run])
    show "(x0 < x1 \<and> x1 < x2) \<or> (x0 > x1 \<and> x1 > x2)" by (rule assms(2))
  next
    fix x0 x1 x2 :: real and xt
    assume m: "(x0 < x1 \<and> x1 < x2) \<or> (x0 > x1 \<and> x1 > x2)"
      and i: "boundary_inside x2 a b"
      and xt: "xt = ensure_boundary (x2 + gfactor * (x2 - x1)) a b"
    from m show "(x1 < x2 \<and> x2 < xt) \<or> (x1 > x2 \<and> x2 > xt)"
    proof
      assume "x0 < x1 \<and> x1 < x2"
      then show ?thesis using ensure_boundary_up [OF assms(1) _ i, of x1] xt by simp
    next
      assume "x0 > x1 \<and> x1 > x2"
      then show ?thesis using ensure_boundary_down [OF assms(1) _ i, of x1] xt by simp
    qed
  qed
  then show ?thesis by simp
qed

lemma expansion_loop_within:
  assumes "lo_le a x0 \<and> le_hi x0 b" "lo_le a x1 \<and> le_hi x1 b" "lo_le a x2 \<and> le_hi x2 b"
    and run: "expansion_loop f a b gfactor maxiter x0 x1 x2 f0 f1 f2 nit s
           = ((y0, y1, y2, g0, g1, g2, n), t)"
  shows "(lo_le a y0 \<and> le_hi y0 b) \<and> (lo_le a y1 \<and> le_hi y1 b) \<and> (lo_le a y2 \<and> le_hi y2 b)"
proof -
  have "((lo_le a y0 \<and> le_hi y0 b) \<and> (lo_le a y1 \<and> le_hi y1 b) \<and> (lo_le a y2 \<and> le_hi y2 b))
      \<and> \<not> (\<not> (g0 > g1 \<and> g1 < g2) \<and> n < maxiter \<and> boundary_inside y2 a b)"
  proof (rule expansion_loop_rule [where P = "\<lambda>x0 x1 x2 f0 f1 f2 nit s.
        (lo_le a x0 \<and> le_hi x0 b) \<and> (lo_le a x1 \<and> le_hi x1 b) \<and> (lo_le a x2 \<and> le_hi x2 b)",
        OF _ _ run])
    show "(lo_le a x0 \<and> le_hi x0 b) \<and> (lo_le a x1 \<and> le_hi x1 b) \<and> (lo_le a x2 \<and> le_hi x2 b)"
      using assms(1-3) by blast
  next
    fix x0 x1 x2 :: real and xt
    assume w: "(lo_le a x0 \<and> le_hi x0 b) \<and> (lo_le a x1 \<and> le_hi x1 b) \<and> (lo_le a x2 \<and> le_hi x2 b)"
      and xt: "xt = ensure_boundary (x2 + gfactor * (x2 - x1)) a b"
    from w have "lo_le a xt \<and> le_hi xt b"
      unfolding xt using ensure_boundary_within by blast
    with w show "(lo_le a x1 \<and> le_hi x1 b) \<and> (lo_le a x2 \<and> le_hi x2 b) \<and> (lo_le a xt \<and> le_hi xt b)"
      by blast
  qed
  then show ?thesis by simp
qed

lemma expansion_loop_values:
  assumes "f0 = g x0 \<and> f1 = g x1 \<and> f2 = g x2"
    and run: "expansion_loop (stateless g) a b gfactor maxiter x0 x1 x2 f0 f1 f2 nit s
           = ((y0, y1, y2, g0, g1, g2, n), t)"
  shows "g0 = g y0 \<and> g1 = g y1 \<and> g2 = g y2 \<and> t = s"
proof -
  have "(g0 = g y0 \<and> g1 = g y1 \<and> g2 = g y2 \<and> t = s)
      \<and> \<not> (\<not> (g0 > g1 \<and> g1 < g2) \<and> n < maxiter \<and> boundary_inside y2 a b)"
    by (rule expansion_loop_rule [where P = "\<lambda>x0 x1 x2 f0 f1 f2 nit s'.
        f0 = g x0 \<and> f1 = g x1 \<and> f2 = g x2 \<and> s' = s", OF _ _ run])
      (simp_all add: assms(1) stateless_def)
  then show ?thesis by simp
qed

lemma expansion_loop_exit:
  assumes run: "expansion_loop f a b gfactor maxiter x0 x1 x2 f0 f1 f2 nit s
           = ((y0, y1, y2, g0, g1, g2, n), t)"
    and "nit \<le> maxiter"
  shows "n \<le> maxiter \<and> nit \<le> n
         \<and> \<not> (\<not> (g0 > g1 \<and> g1 < g2) \<and> n < maxiter \<and> boundary_inside y2 a b)"
proof -
  have "(n \<le> maxiter \<and> nit \<le> n)
      \<and> \<not> (\<not> (g0 > g1 \<and> g1 < g2) \<and> n < maxiter \<and> boundary_inside y2 a b)"
    by (rule expansion_loop_rule [where P = "\<lambda>x0 x1 x2 f0 f1 f2 k s'. k \<le> maxiter \<and> nit \<le> k",
          OF _ _ run]) (simp_all add: assms(2))
  then show ?thesis by simp
qed


section \<open>The triple returned for a stateless objective\<close>

text \<open>
  Every triple returned comes from \<open>_sort\<close> applied to three points \<open>z0, z1, z2\<close> that are
  monotone in one direction, strictly so under exit codes 1 and 4, with the values of
  the function at these points; they lie within the bounds when the starting points do.
\<close>

lemma mid_within:
  "lo_le a x \<and> le_hi x b \<Longrightarrow> lo_le a y \<and> le_hi y b \<Longrightarrow> lo_le a (x / 2 + y / 2) \<and> le_hi (x / 2 + y / 2) b"
  by (cases a; cases b) (auto simp: lo_le_def le_hi_def)

lemma third_point:
  assumes "gfactor > 1" "lo_le a v \<and> le_hi v b" "\<not> boundary_equal v a b" "u \<noteq> v"
    and w: "w = ensure_boundary (v + (v - u) * gfactor) a b"
  shows "(u < v \<and> v < w) \<or> (u > v \<and> v > w)" and "lo_le a w \<and> le_hi w b"
proof -
  have i: "boundary_inside v a b" using within_not_equal_inside assms(2,3) by blast
  have w': "w = ensure_boundary (v + gfactor * (v - u)) a b" unfolding w by (simp add: mult.commute)
  from assms(4) consider "u < v" | "v < u" by linarith
  then show "(u < v \<and> v < w) \<or> (u > v \<and> v > w)"
  proof cases
    case 1
    then show ?thesis using ensure_boundary_up [OF assms(1) 1 i] w' by simp
  next
    case 2
    then show ?thesis using ensure_boundary_down [OF assms(1) 2 i] w' by simp
  qed
  show "lo_le a w \<and> le_hi w b" unfolding w using ensure_boundary_within assms(2) by blast
qed

lemma bracket_stateless_triple:
  assumes run: "bracket (stateless g) x0 x1 a b gfactor rtol atol maxiter s
      = (Inr ((y0, y1, y2, g0, g1, g2), c), t)"
  obtains z0 z1 z2 p q where
    "sort_triple z0 z1 z2 (g z0) (g z1) (g z2) = (y0, y1, y2, g0, g1, g2)"
    "t = s"
    "(z0 \<le> z1 \<and> z1 \<le> z2) \<or> (z0 \<ge> z1 \<and> z1 \<ge> z2)"
    "c = 1 \<or> c = 4 \<Longrightarrow> (z0 < z1 \<and> z1 < z2) \<or> (z0 > z1 \<and> z1 > z2)"
    "initialize_interval x0 x1 a b gfactor rtol atol = (p, q)"
    "lo_le a p \<and> le_hi p b \<Longrightarrow> lo_le a q \<and> le_hi q b
       \<Longrightarrow> (lo_le a z0 \<and> le_hi z0 b) \<and> (lo_le a z1 \<and> le_hi z1 b) \<and> (lo_le a z2 \<and> le_hi z2 b)"
  using run
proof (cases rule: bracket_stateless_paths)
  case assert_fail
  then show ?thesis by simp
next
  case (too_close p q u v)
  have uv: "(u = p \<and> v = q) \<or> (u = q \<and> v = p)" using too_close(4) by (simp split: if_splits)
  show ?thesis
  proof (rule that [of u v v p q])
    show "sort_triple u v v (g u) (g v) (g v) = (y0, y1, y2, g0, g1, g2)" using too_close(6) by simp
    show "t = s" by (rule too_close(7))
    show "(u \<le> v \<and> v \<le> v) \<or> (u \<ge> v \<and> v \<ge> v)" by linarith
    show "(u < v \<and> v < v) \<or> (u > v \<and> v > v)" if "c = 1 \<or> c = 4" using that too_close(6) by simp
    show "initialize_interval x0 x1 a b gfactor rtol atol = (p, q)" by (rule too_close(3))
    show "(lo_le a u \<and> le_hi u b) \<and> (lo_le a v \<and> le_hi v b) \<and> (lo_le a v \<and> le_hi v b)"
      if "lo_le a p \<and> le_hi p b" "lo_le a q \<and> le_hi q b" using that uv by blast
  qed
next
  case (equal_start p q u v)
  have uv: "(u = p \<and> v = q) \<or> (u = q \<and> v = p)" using equal_start(4) by (simp split: if_splits)
  let ?m = "u / 2 + v / 2"
  show ?thesis
  proof (rule that [of u ?m v p q])
    show "sort_triple u ?m v (g u) (g ?m) (g v) = (y0, y1, y2, g0, g1, g2)"
      using equal_start(7) by simp
    show "t = s" by (rule equal_start(8))
    show "(u \<le> ?m \<and> ?m \<le> v) \<or> (u \<ge> ?m \<and> ?m \<ge> v)" by linarith
    show "(u < ?m \<and> ?m < v) \<or> (u > ?m \<and> ?m > v)" if "c = 1 \<or> c = 4"
    proof -
      from that equal_start(7) have "g u > g ?m" by (simp split: if_splits)
      then have "u \<noteq> v" by auto
      then show ?thesis by linarith
    qed
    show "initialize_interval x0 x1 a b gfactor rtol atol = (p, q)" by (rule equal_start(3))
    show "(lo_le a u \<and> le_hi u b) \<and> (lo_le a ?m \<and> le_hi ?m b) \<and> (lo_le a v \<and> le_hi v b)"
      if "lo_le a p \<and> le_hi p b" "lo_le a q \<and> le_hi q b"
    proof -
      from that uv have "lo_le a u \<and> le_hi u b" "lo_le a v \<and> le_hi v b" by blast+
      then show ?thesis using mid_within by blast
    qed
  qed
next
  case (assert_bounds p q u v)
  then show ?thesis by simp
next
  case (boundary_start p q u v)
  show ?thesis
  proof (rule that [of u v v p q])
    show "sort_triple u v v (g u) (g v) (g v) = (y0, y1, y2, g0, g1, g2)"
      using boundary_start(9) by simp
    show "t = s" by (rule boundary_start(10))
    show "(u \<le> v \<and> v \<le> v) \<or> (u \<ge> v \<and> v \<ge> v)" by linarith
    show "(u < v \<and> v < v) \<or> (u > v \<and> v > v)" if "c = 1 \<or> c = 4"
      using that boundary_start(9) by simp
    show "initialize_interval x0 x1 a b gfactor rtol atol = (p, q)" by (rule boundary_start(3))
    show "(lo_le a u \<and> le_hi u b) \<and> (lo_le a v \<and> le_hi v b) \<and> (lo_le a v \<and> le_hi v b)"
      using boundary_start(7) by blast
  qed
next
  case (equal_third p q u v w)
  have vb: "lo_le a v \<and> le_hi v b" and ne: "u \<noteq> v" using equal_third(7) by blast+
  note tp = third_point [OF equal_third(1) vb equal_third(8) ne equal_third(9)]
  let ?m = "v / 2 + w / 2"
  show ?thesis
  proof (rule that [of v ?m w p q])
    show "sort_triple v ?m w (g v) (g ?m) (g w) = (y0, y1, y2, g0, g1, g2)"
      using equal_third(11) by simp
    show "t = s" by (rule equal_third(12))
    from tp(1) have "v \<noteq> w" by linarith
    then show "(v \<le> ?m \<and> ?m \<le> w) \<or> (v \<ge> ?m \<and> ?m \<ge> w)" by linarith
    from \<open>v \<noteq> w\<close> show "(v < ?m \<and> ?m < w) \<or> (v > ?m \<and> ?m > w)" by linarith
    show "initialize_interval x0 x1 a b gfactor rtol atol = (p, q)" by (rule equal_third(3))
    show "(lo_le a v \<and> le_hi v b) \<and> (lo_le a ?m \<and> le_hi ?m b) \<and> (lo_le a w \<and> le_hi w b)"
      using vb tp(2) mid_within by blast
  qed
next
  case (loop p q u v w z0 z1 z2 h0 h1 h2 nit)
  have ub: "lo_le a u \<and> le_hi u b" and vb: "lo_le a v \<and> le_hi v b" and ne: "u \<noteq> v"
    using loop(7) by blast+
  note tp = third_point [OF loop(1) vb loop(8) ne loop(9)]
  have ord: "(z0 < z1 \<and> z1 < z2) \<or> (z0 > z1 \<and> z1 > z2)"
    by (rule expansion_loop_order [OF loop(1) tp(1) loop(11)])
  have vals: "h0 = g z0 \<and> h1 = g z1 \<and> h2 = g z2 \<and> t = s"
    by (rule expansion_loop_values [OF _ loop(11)]) simp
  show ?thesis
  proof (rule that [of z0 z1 z2 p q])
    show "sort_triple z0 z1 z2 (g z0) (g z1) (g z2) = (y0, y1, y2, g0, g1, g2)"
      using loop(12) vals by simp
    show "t = s" using vals by simp
    show "(z0 \<le> z1 \<and> z1 \<le> z2) \<or> (z0 \<ge> z1 \<and> z1 \<ge> z2)" using ord by linarith
    show "(z0 < z1 \<and> z1 < z2) \<or> (z0 > z1 \<and> z1 > z2)" by (rule ord)
    show "initialize_interval x0 x1 a b gfactor rtol atol = (p, q)" by (rule loop(3))
    show "(lo_le a z0 \<and> le_hi z0 b) \<and> (lo_le a z1 \<and> le_hi z1 b) \<and> (lo_le a z2 \<and> le_hi z2 b)"
      by (rule expansion_loop_within [OF ub vb tp(2) loop(11)])
  qed
qed

text \<open>What \<open>_sort\<close> does to a monotone triple.\<close>

lemma sort_triple_ascending:
  assumes "sort_triple z0 z1 z2 h0 h1 h2 = (y0, y1, y2, g0, g1, g2)"
    and "(z0 \<le> z1 \<and> z1 \<le> z2) \<or> (z0 \<ge> z1 \<and> z1 \<ge> z2)"
  shows "y0 \<le> y1 \<and> y1 \<le> y2"
  using assms by (cases "z0 > z2") (auto simp: sort_triple_def)

lemma sort_triple_strict:
  assumes "sort_triple z0 z1 z2 h0 h1 h2 = (y0, y1, y2, g0, g1, g2)"
    and "(z0 < z1 \<and> z1 < z2) \<or> (z0 > z1 \<and> z1 > z2)"
  shows "y0 < y1 \<and> y1 < y2"
  using assms by (cases "z0 > z2") (auto simp: sort_triple_def)


section \<open>The order of the abscissas\<close>

text \<open>
  Claim C4 says that the returned abscissas are strictly increasing under every exit
  status. The triple returned when the second point is on a bound repeats that point:
  for \<open>-x\<close> on \<open>[0, 1]\<close> from the starting points 0 and 1 the result is \<open>(0, 1, 1)\<close> with exit
  code 2. The triple returned for points that are too close repeats a point as well.
\<close>

theorem hit_boundary_duplicate_counterexample:
  "bracket (stateless (\<lambda>x. - x)) (Some 0) (Some 1) (Some 0) (Some 1) 2 eps eps 500 ()
     = (Inr ((0, 1, 1, 0, - 1, - 1), 2), ())
   \<and> \<not> ((1::real) < 1)"
  by (simp add: bracket_def bracket_defs Let_def)

text \<open>
  Claim C4, amended. Every triple returned by \<open>bracket\<close>, under every exit status, has
  its abscissas in ascending order, \<open>x0 \<le> x1 \<le> x2\<close>, \<open>_sort\<close> having reversed the triple
  when its first abscissa was greater than its last; under the exit codes 1 (found) and
  4 (max-iterations) they are strictly increasing.
\<close>

theorem bracket_triple_ordered:
  assumes "bracket (stateless g) x0 x1 a b gfactor rtol atol maxiter s
      = (Inr ((y0, y1, y2, g0, g1, g2), c), t)"
  shows "y0 \<le> y1 \<and> y1 \<le> y2 \<and> (c = 1 \<or> c = 4 \<longrightarrow> y0 < y1 \<and> y1 < y2)"
  using assms
proof (cases rule: bracket_stateless_triple)
  case (1 z0 z1 z2 p q)
  have "y0 \<le> y1 \<and> y1 \<le> y2" by (rule sort_triple_ascending [OF 1(1) 1(3)])
  moreover have "y0 < y1 \<and> y1 < y2" if "c = 1 \<or> c = 4"
    by (rule sort_triple_strict [OF 1(1) 1(4) [OF that]])
  ultimately show ?thesis by blast
qed

text \<open>
  With \<open>maxiter = 1\<close> the search on \<open>-x\<close> from 0 and 1 stops after one iteration with the
  points 1, 3, 7 and exit code 4.
\<close>

lemma bracket_maxiter_1:
  "bracket (stateless (\<lambda>x. - x)) (Some 0) (Some 1) None None 2 eps eps 1 ()
     = (Inr ((1, 3, 7, - 1, - 3, - 7), 4), ())"
  by (simp add: bracket_def bracket_defs Let_def expansion_loop.simps)

theorem bracket_triple_ordered_witness:
  "bracket (stateless (\<lambda>x. - x)) (Some 0) (Some 1) None None 2 eps eps 1 ()
     = (Inr ((1, 3, 7, - 1, - 3, - 7), 4), ())
   \<and> (1::real) \<le> 3 \<and> (3::real) \<le> 7 \<and> (1::real) < 3 \<and> (3::real) < 7"
  using bracket_triple_ordered [OF bracket_maxiter_1] bracket_maxiter_1 by simp

section \<open>What a status "found" guarantees\<close>





section \<open>The calls of the objective\<close>

text \<open>
  \<open>bracket\<close> changes the state only by calling the objective: the state it returns is the
  state after calls at some points \<open>xs\<close>, at least two and at most \<open>maxiter + 3\<close> of them
  once the two assertions on entry have passed, and none otherwise.
\<close>

lemma after_calls_Nil: "after_calls f [] s = s"
  by (simp add: after_calls_def)

lemma after_calls_snoc: "after_calls f (xs @ [x]) s = snd (f x (after_calls f xs s))"
  by (simp add: after_calls_def)

lemma after_calls_Cons: "after_calls f (x # xs) s = after_calls f xs (snd (f x s))"
  by (simp add: after_calls_def)

lemma after_calls_append: "after_calls f (xs @ ys) s = after_calls f ys (after_calls f xs s)"
  by (simp add: after_calls_def)

lemma after_calls_logged: "after_calls (logged f) xs (s, cs) = (after_calls f xs s, cs @ xs)"
  by (induction xs arbitrary: s cs) (simp_all add: after_calls_Nil after_calls_Cons logged_def split_def)

lemma after_calls_func: "after_calls (func f) xs (s, n) = (after_calls f xs s, n + length xs)"
  by (induction xs arbitrary: s n) (simp_all add: after_calls_Nil after_calls_Cons func_def split_def Let_def)

lemma resolve_equal_fvalue_state:
  "resolve_equal_fvalue f x0 x1 f0 f1 s = (r, t) \<Longrightarrow> t = after_calls f [x0 / 2 + x1 / 2] s"
  unfolding resolve_equal_fvalue_eq by (simp add: after_calls_Cons after_calls_Nil)

lemma expansion_loop_calls:
  assumes run: "expansion_loop f a b gfactor maxiter x0 x1 x2 f0 f1 f2 nit s
           = ((y0, y1, y2, g0, g1, g2, n), t)"
    and "nit \<le> maxiter"
  shows "\<exists>xs. t = after_calls f xs s \<and> int (length xs) = n - nit \<and> n \<le> maxiter"
proof -
  have "(\<exists>xs. t = after_calls f xs s \<and> int (length xs) = n - nit \<and> n \<le> maxiter)
      \<and> \<not> (\<not> (g0 > g1 \<and> g1 < g2) \<and> n < maxiter \<and> boundary_inside y2 a b)"
  proof (rule expansion_loop_rule [where P = "\<lambda>x0 x1 x2 f0 f1 f2 k st.
        \<exists>xs. st = after_calls f xs s \<and> int (length xs) = k - nit \<and> k \<le> maxiter", OF _ _ run])
    show "\<exists>xs. s = after_calls f xs s \<and> int (length xs) = nit - nit \<and> nit \<le> maxiter"
      using assms(2) by (intro exI [of _ "[]"]) (simp add: after_calls_Nil)
  next
    fix k :: int and st xt
    assume "\<exists>xs. st = after_calls f xs s \<and> int (length xs) = k - nit \<and> k \<le> maxiter"
      and lt: "k < maxiter"
    then obtain xs where xs: "st = after_calls f xs s" "int (length xs) = k - nit" by blast
    show "\<exists>xs. snd (f xt st) = after_calls f xs s \<and> int (length xs) = k + 1 - nit \<and> k + 1 \<le> maxiter"
      using xs lt by (intro exI [of _ "xs @ [xt]"]) (simp add: after_calls_snoc)
  qed
  then show ?thesis by simp
qed

lemma bracket_calls:
  assumes run: "bracket f x0 x1 a b gfactor rtol atol maxiter s = (r, t)"
  shows "\<exists>xs. t = after_calls f xs s
           \<and> (gfactor > 1 \<and> maxiter > 0 \<longrightarrow> 2 \<le> length xs \<and> int (length xs) \<le> maxiter + 3)
           \<and> (\<not> (gfactor > 1 \<and> maxiter > 0) \<longrightarrow> xs = [])"
  using run
proof (cases rule: bracket_paths)
  case assert_fail
  then show ?thesis by (intro exI [of _ "[]"]) (simp add: after_calls_Nil)
next
  case (too_close p q fp s1 fq s2 u v fu fv)
  have "t = after_calls f [p, q] s"
    using too_close(4,5,9) by (simp add: after_calls_Cons after_calls_Nil)
  then show ?thesis using too_close(1,2) by (intro exI [of _ "[p, q]"]) simp
next
  case (equal_start p q fp s1 fq s2 u v fu fv)
  have "t = after_calls f [p, q, u / 2 + v / 2] s"
    using equal_start(4,5) resolve_equal_fvalue_state [OF equal_start(9)]
    by (simp add: after_calls_Cons after_calls_Nil)
  then show ?thesis using equal_start(1,2) by (intro exI [of _ "[p, q, u / 2 + v / 2]"]) simp
next
  case (assert_bounds p q fp s1 fq s2 u v fu fv)
  have "t = after_calls f [p, q] s"
    using assert_bounds(4,5,11) by (simp add: after_calls_Cons after_calls_Nil)
  then show ?thesis using assert_bounds(1,2) by (intro exI [of _ "[p, q]"]) simp
next
  case (boundary_start p q fp s1 fq s2 u v fu fv)
  have "t = after_calls f [p, q] s"
    using boundary_start(4,5,12) by (simp add: after_calls_Cons after_calls_Nil)
  then show ?thesis using boundary_start(1,2) by (intro exI [of _ "[p, q]"]) simp
next
  case (equal_third p q fp s1 fq s2 u v fu fv w fw s3)
  have "t = after_calls f [p, q, w, v / 2 + w / 2] s"
    using equal_third(4,5,12) resolve_equal_fvalue_state [OF equal_third(14)]
    by (simp add: after_calls_Cons after_calls_Nil)
  then show ?thesis using equal_third(1,2)
    by (intro exI [of _ "[p, q, w, v / 2 + w / 2]"]) simp
next
  case (loop p q fp s1 fq s2 u v fu fv w fw s3 y0 y1 y2 g0 g1 g2 nit)
  from expansion_loop_calls [OF loop(14)] loop(2)
  obtain xs where xs: "t = after_calls f xs s3" "int (length xs) = nit" "nit \<le> maxiter"
    by auto
  have "s3 = after_calls f [p, q, w] s"
    using loop(4,5,12) by (simp add: after_calls_Cons after_calls_Nil)
  then have "t = after_calls f ([p, q, w] @ xs) s"
    unfolding after_calls_append using xs(1) by simp
  then show ?thesis using loop(1,2) xs(2,3)
    by (intro exI [of _ "[p, q, w] @ xs"]) simp
qed

text \<open>A result other than an error means that the two assertions on entry have passed; a
  procedure changes the state only by calling the objective.\<close>

lemma bracket_Inr_asserted:
  "bracket f x0 x1 a b gfactor rtol atol maxiter s = (Inr v, t) \<Longrightarrow> gfactor > 1 \<and> maxiter > 0"
  by (cases "gfactor > 1"; cases "maxiter > 0") (simp_all add: bracket_def)

lemma exec_calls: "exec f p s = (v, t) \<Longrightarrow> \<exists>xs. t = after_calls f xs s"
proof (induction p arbitrary: s)
  case (Return w)
  then show ?case by (intro exI [of _ "[]"]) (simp add: after_calls_Nil)
next
  case (Evaluate x k)
  obtain y s1 where e: "f x s = (y, s1)" by (cases "f x s")
  with Evaluate.prems have "exec f (k y) s1 = (v, t)" by simp
  from Evaluate.IH [OF _ this] obtain xs where "t = after_calls f xs s1" by auto
  then have "t = after_calls f (x # xs) s" using e by (simp add: after_calls_Cons)
  then show ?case by blast
qed

section \<open>The number of evaluations of \<open>bracket\<close>\<close>

text \<open>
  Claim C10. For every objective and every input that passes the assertions
  \<open>gfactor > 1\<close> and \<open>maxiter > 0\<close>, \<open>bracket\<close> calls the objective at most \<open>maxiter + 3\<close>
  times (and at least twice): the log of the instrumented objective grows by a list
  \<open>pts\<close> of that length. The longest paths are the two starting points, the third point
  and either one bisection or at most \<open>maxiter\<close> iterations of the loop.
\<close>

theorem bracket_evaluations_bounded:
  assumes "gfactor > 1" and "maxiter > 0"
    and "bracket (logged f) x0 x1 a b gfactor rtol atol maxiter (s, cs) = (r, (s', cs'))"
  shows "\<exists>pts. cs' = cs @ pts \<and> 2 \<le> length pts \<and> int (length pts) \<le> maxiter + 3"
proof -
  from bracket_calls [OF assms(3)] assms(1,2) obtain xs where
    xs: "(s', cs') = after_calls (logged f) xs (s, cs)" "2 \<le> length xs"
      "int (length xs) \<le> maxiter + 3" by blast
  from xs(1) have "cs' = cs @ xs" by (simp add: after_calls_logged)
  with xs(2,3) show ?thesis by blast
qed

text \<open>With \<open>maxiter = 1\<close> the bound is reached: \<open>-x\<close> from 0 and 1 is evaluated at 0, 1, 3, 7.\<close>

theorem bracket_evaluations_bounded_witness:
  "(2::real) > 1 \<and> (1::int) > 0
   \<and> bracket (logged (stateless (\<lambda>x. - x))) (Some 0) (Some 1) None None 2 eps eps 1 ((), [])
       = (Inr ((1, 3, 7, - 1, - 3, - 7), 4), ((), [0, 1, 3, 7]))
   \<and> (\<exists>pts. [0, 1, 3, 7] = [] @ pts \<and> 2 \<le> length pts \<and> int (length pts) \<le> 1 + 3)"
  using bracket_evaluations_bounded [of 2 1 "stateless (\<lambda>x. - x)" "Some 0" "Some 1" None None eps eps
      "()" "[]" "Inr ((1, 3, 7, - 1, - 3, - 7), 4)" "()" "[0, 1, 3, 7]"]
  by (simp add: bracket_def bracket_defs logged_def Let_def expansion_loop.simps)

section \<open>The evaluation counter of \<open>minimize\<close>\<close>

text \<open>
  Claim C2. For every call of \<open>minimize\<close> that returns, whatever procedure \<open>brent\<close> is, the
  returned \<open>n_evaluations\<close> is positive and equals the number of invocations of the
  objective the caller supplied: the log of the instrumented objective grows by
  exactly \<open>n_evaluations\<close> entries. The counter \<open>nfev\<close> starts at 0 in \<open>minimize\<close> and \<open>func\<close>
  adds one to it at each call.
\<close>

theorem minimize_n_evaluations:
  assumes "minimize brent (logged f) x0 x1 a b gfactor rtol atol maxiter (s, cs)
      = (Inr (xm, fm, n), (s', cs'))"
  shows "0 < n \<and> (\<exists>pts. cs' = cs @ pts \<and> length pts = n)"
proof -
  let ?F = "func (logged f)"
  obtain rb tb where rb: "bracket ?F x0 x1 a b gfactor rtol atol maxiter ((s, cs), 0) = (rb, tb)"
    by (cases "bracket ?F x0 x1 a b gfactor rtol atol maxiter ((s, cs), 0)")
  from assms obtain y0 y1 y2 g0 g1 g2 c where inr: "rb = Inr ((y0, y1, y2, g0, g1, g2), c)"
    unfolding minimize_def rb by (cases rb) (auto split: prod.splits)
  obtain re te where re: "exec ?F (brent y0 y2 g0 g2 y1 g1 rtol atol maxiter) tb = (re, te)"
    by (cases "exec ?F (brent y0 y2 g0 g2 y1 g1 rtol atol maxiter) tb")
  from assms have te: "te = ((s', cs'), n)"
    unfolding minimize_def rb inr by (simp add: re split: sum.splits prod.splits)
  have pre: "gfactor > 1 \<and> maxiter > 0"
    by (rule bracket_Inr_asserted [OF rb [unfolded inr]])
  from bracket_calls [OF rb] pre obtain xs where
    xs: "tb = after_calls ?F xs ((s, cs), 0)" "2 \<le> length xs" by blast
  from exec_calls [OF re] obtain ys where ys: "te = after_calls ?F ys tb" by blast
  have "te = after_calls ?F (xs @ ys) ((s, cs), 0)"
    unfolding after_calls_append using xs(1) ys by simp
  then have "((s', cs'), n) = ((after_calls f (xs @ ys) s, cs @ xs @ ys), length (xs @ ys))"
    unfolding te by (simp add: after_calls_func after_calls_logged)
  then have "cs' = cs @ (xs @ ys)" "n = length (xs @ ys)" by simp_all
  with xs(2) show ?thesis by auto
qed

text \<open>
  A procedure that evaluates the objective once, at the middle point of the bracket,
  and returns that point: \<open>(x - 2)\<^sup>2\<close> from 0 and 1 is evaluated at 0, 1, 3, 2 by \<open>bracket\<close>
  and at 2 by the procedure, five times in all.
\<close>

theorem minimize_n_evaluations_witness:
  "minimize (\<lambda>a b fa fb xm fm rtol atol maxiter. Evaluate xm (\<lambda>y. Return (Inr (xm, y))))
      (logged (stateless (\<lambda>x. (x - 2)\<^sup>2))) (Some 0) (Some 1) None None 2 eps eps 500 ((), [])
     = (Inr (2, 0, 5), ((), [0, 1, 3, 2, 2]))
   \<and> (0::nat) < 5 \<and> (\<exists>pts. [0, 1, 3, 2, 2] = [] @ pts \<and> length pts = (5::nat))"
  using minimize_n_evaluations [of "\<lambda>a b fa fb xm fm rtol atol maxiter. Evaluate xm (\<lambda>y. Return (Inr (xm, y)))"
      "stateless (\<lambda>x. (x - 2)\<^sup>2)" "Some 0" "Some 1" None None 2 eps eps 500 "()" "[]" 2 0 5 "()"
      "[0, 1, 3, 2, 2]"]
  by (simp add: minimize_def func_def bracket_def bracket_defs logged_def Let_def)

section \<open>The growth of the steps\<close>

text \<open>Clamping moves a point towards a point strictly inside the bounds, never past it.\<close>

lemma ensure_boundary_between:
  assumes "boundary_inside x2 a b"
  shows "x2 \<le> v \<Longrightarrow> ensure_boundary v a b \<le> v" and "v \<le> x2 \<Longrightarrow> v \<le> ensure_boundary v a b"
  using assms
  by (cases a; cases b; simp add: ensure_boundary_def boundary_inside_def lo_lt_def lt_hi_def
        max_lo_def min_hi_def)+




section \<open>A decreasing objective\<close>

text \<open>
  For a function that is strictly decreasing on \<open>[l, h]\<close> the loop started at three
  increasing points runs upwards until the newest point is clamped to \<open>h\<close>; the steps
  grow by the factor \<open>gfactor\<close>, so \<open>k + 1\<close> iterations are enough when
  \<open>h - x2 \<le> (x2 - x1) * gfactor ^ k\<close>.
\<close>

lemma expansion_loop_at_bound:
  "expansion_loop f a (Some h) gfactor maxiter x0 x1 h f0 f1 f2 nit s
     = ((x0, x1, h, f0, f1, f2, nit), s)"
  by (rule expansion_loop_stop) (simp add: boundary_inside_def lt_hi_def)

lemma expansion_loop_decreasing:
  assumes dec: "\<forall>x y. l \<le> x \<and> x < y \<and> y \<le> h \<longrightarrow> g y < g x" and gf: "gfactor > 1"
  shows "l \<le> x0 \<Longrightarrow> x0 < x1 \<Longrightarrow> x1 < x2 \<Longrightarrow> x2 \<le> h
    \<Longrightarrow> h - x2 \<le> (x2 - x1) * gfactor ^ k \<Longrightarrow> nit + int k + 1 < maxiter
    \<Longrightarrow> \<exists>y0 y1 n. expansion_loop (stateless g) (Some l) (Some h) gfactor maxiter
            x0 x1 x2 (g x0) (g x1) (g x2) nit s = ((y0, y1, h, g y0, g y1, g h, n), s)
          \<and> l \<le> y0 \<and> y0 < y1 \<and> y1 < h \<and> n < maxiter"
proof (induction k arbitrary: x0 x1 x2 nit)
  case 0
  show ?case
  proof (cases "x2 = h")
    case True
    show ?thesis
      unfolding True expansion_loop_at_bound
      using 0 True by (intro exI [of _ x0] exI [of _ x1] exI [of _ nit]) simp
  next
    case False
    define v where "v = x2 + gfactor * (x2 - x1)"
    define xt where "xt = ensure_boundary v (Some l) (Some h)"
    have lt: "x2 < h" using False "0.prems"(4) by simp
    have "g x2 < g x1" using dec "0.prems"(1,2,3,4) by auto
    then have cond: "\<not> (g x0 > g x1 \<and> g x1 < g x2) \<and> nit < maxiter
        \<and> boundary_inside x2 (Some l) (Some h)"
      using "0.prems" lt by (simp add: boundary_inside_def lo_lt_def lt_hi_def)
    have "1 * (x2 - x1) \<le> gfactor * (x2 - x1)"
      using gf "0.prems"(3) by (intro mult_right_mono) simp_all
    then have "h \<le> v" using "0.prems"(5) by (simp add: v_def)
    then have xt: "xt = h"
      using "0.prems"(1,2,3) lt by (simp add: xt_def ensure_boundary_def max_lo_def min_hi_def)
    have "expansion_loop (stateless g) (Some l) (Some h) gfactor maxiter
            x0 x1 x2 (g x0) (g x1) (g x2) nit s = ((x1, x2, h, g x1, g x2, g h, nit + 1), s)"
      unfolding expansion_loop_step [OF cond xt_def [unfolded v_def]] xt
      by (simp add: stateless_def expansion_loop_at_bound)
    then show ?thesis
      using "0.prems" lt by (intro exI [of _ x1] exI [of _ x2] exI [of _ "nit + 1"]) simp
  qed
next
  case (Suc k)
  show ?case
  proof (cases "x2 = h")
    case True
    show ?thesis
      unfolding True expansion_loop_at_bound
      using Suc.prems True by (intro exI [of _ x0] exI [of _ x1] exI [of _ nit]) simp
  next
    case False
    define v where "v = x2 + gfactor * (x2 - x1)"
    define xt where "xt = ensure_boundary v (Some l) (Some h)"
    have lt: "x2 < h" using False Suc.prems(4) by simp
    have "g x2 < g x1" using dec Suc.prems(1,2,3,4) by auto
    then have cond: "\<not> (g x0 > g x1 \<and> g x1 < g x2) \<and> nit < maxiter
        \<and> boundary_inside x2 (Some l) (Some h)"
      using Suc.prems lt by (simp add: boundary_inside_def lo_lt_def lt_hi_def)
    have pos: "gfactor * (x2 - x1) > 0" using gf Suc.prems(3) by simp
    then have vgt: "x2 < v" by (simp add: v_def)
    have step: "expansion_loop (stateless g) (Some l) (Some h) gfactor maxiter
            x0 x1 x2 (g x0) (g x1) (g x2) nit s =
          expansion_loop (stateless g) (Some l) (Some h) gfactor maxiter
            x1 x2 xt (g x1) (g x2) (g xt) (nit + 1) s"
      unfolding expansion_loop_step [OF cond xt_def [unfolded v_def]]
      by (simp add: stateless_def)
    show ?thesis
    proof (cases "h \<le> v")
      case True
      then have xt: "xt = h"
        using Suc.prems(1,2,3) lt by (simp add: xt_def ensure_boundary_def max_lo_def min_hi_def)
      have "expansion_loop (stateless g) (Some l) (Some h) gfactor maxiter
            x0 x1 x2 (g x0) (g x1) (g x2) nit s = ((x1, x2, h, g x1, g x2, g h, nit + 1), s)"
        unfolding step xt by (simp add: expansion_loop_at_bound)
      then show ?thesis
        using Suc.prems lt by (intro exI [of _ x1] exI [of _ x2] exI [of _ "nit + 1"]) simp
    next
      case False
      then have xt: "xt = v"
        using Suc.prems(1,2,3) vgt by (simp add: xt_def ensure_boundary_def max_lo_def min_hi_def)
      have e: "(xt - x2) * gfactor ^ k = (x2 - x1) * gfactor ^ Suc k"
        unfolding xt v_def by simp
      have "h - xt \<le> h - x2" using vgt xt by simp
      also have "\<dots> \<le> (x2 - x1) * gfactor ^ Suc k" by (rule Suc.prems(5))
      also have "\<dots> = (xt - x2) * gfactor ^ k" by (rule e [symmetric])
      finally have a5: "h - xt \<le> (xt - x2) * gfactor ^ k" .
      have a1: "l \<le> x1" using Suc.prems(1,2) by simp
      have a3: "x2 < xt" using vgt xt by simp
      have a4: "xt \<le> h" using False xt by simp
      have a6: "nit + 1 + int k + 1 < maxiter" using Suc.prems(6) by simp
      from Suc.IH [OF a1 Suc.prems(3) a3 a4 a5 a6] show ?thesis unfolding step .
    qed
  qed
qed

text \<open>
  Claim C6 says that for every monotonically decreasing objective on \<open>[0, 1]\<close> the call
  \<open>bracket(f, a=0, b=1)\<close> returns "hit-boundary". An objective that never increases but
  is flat at the start of the interval has equal values at the two starting points
  \<open>x0 = 0\<close> and \<open>x1 = 20 * 2 ^ -26\<close>: the step function that is 1 below \<open>1/2\<close> and 0 from
  there on is bisected at \<open>10 * 2 ^ -26\<close>, where its value is 1 again, and the exit code is
  5.
\<close>

theorem flat_start_counterexample:
  "bracket (stateless (\<lambda>x. if x < 1 / 2 then 1 else 0)) None None (Some 0) (Some 1) 2 eps eps 500 ()
     = (Inr ((0, 5 / 33554432, 5 / 16777216, 1, 1, 1), 5), ())"
  by (simp add: bracket_def bracket_defs Let_def)

text \<open>
  Claim C6, amended. For every objective whose values are strictly decreasing on
  \<open>[0, 1]\<close>, \<open>g y < g x\<close> for \<open>0 \<le> x < y \<le> 1\<close>, the call \<open>bracket(f, a=0, b=1)\<close>, all other
  arguments at their defaults, returns exit code 2 with the last abscissa of the triple
  on the upper bound, \<open>x2 = b = 1\<close>. The search starts at \<open>x0 = 0\<close> and \<open>x1 = 20 * 2 ^ -26\<close> and
  moves upwards, so it is \<open>x2\<close> that reaches a bound, after at most 22 of the 500
  iterations. With \<open>gfactor = 2\<close> and the tolerances \<open>2 ^ -26\<close> every point of this search,
  before it is clamped, is a multiple of \<open>5 * 2 ^ -24\<close> below \<open>5/4\<close>, which binary64 holds,
  subtracts, doubles and adds without rounding: the points of the model are the
  points of the code, and \<open>g\<close> stands for the values the callable returns at them.
\<close>

theorem bracket_decreasing_hits_boundary:
  assumes dec: "\<forall>x y. 0 \<le> x \<and> x < y \<and> y \<le> 1 \<longrightarrow> g y < g x"
  shows "\<exists>y0 y1. 0 \<le> y0 \<and> y0 < y1 \<and> y1 < 1
           \<and> bracket (stateless g) None None (Some 0) (Some 1) 2 eps eps 500 s
               = (Inr ((y0, y1, 1, g y0, g y1, g 1), 2), s)"
proof -
  define q :: real where "q = 5 / 16777216"
  define w :: real where "w = 15 / 16777216"
  have init: "initialize_interval None None (Some 0) (Some 1) 2 eps eps = (0, q)"
    by (simp add: initialize_interval_def max_lo_def min_hi_def tol_def eps_def q_def)
  have gq: "g q < g 0" using dec by (simp add: q_def)
  have gw: "g w < g q" using dec by (simp add: q_def w_def)
  have sw: "(0, q) = (if g 0 < g q then (q, 0) else (0, q))" using gq by simp
  have wd: "w = ensure_boundary (q + (q - 0) * 2) (Some 0) (Some 1)"
    by (simp add: ensure_boundary_def max_lo_def min_hi_def q_def w_def)
  have c1: "\<not> \<bar>0 - q\<bar> < 2 * tol 0 eps eps" by (simp add: tol_def eps_def q_def)
  have c2: "g 0 \<noteq> g q" using gq by simp
  have c3: "lo_le (Some 0) 0 \<and> le_hi 0 (Some 1)" by (simp add: lo_le_def le_hi_def)
  have c4: "lo_le (Some 0) q \<and> le_hi q (Some 1)" by (simp add: lo_le_def le_hi_def q_def)
  have c5: "0 \<noteq> q" by (simp add: q_def)
  have c6: "\<not> boundary_equal q (Some 0) (Some 1)" by (simp add: boundary_equal_def q_def)
  have c7: "g q \<noteq> g w" using gw by simp
  have "\<exists>y0 y1 n. expansion_loop (stateless g) (Some 0) (Some 1) 2 500
            0 q w (g 0) (g q) (g w) 0 s = ((y0, y1, 1, g y0, g y1, g 1, n), s)
          \<and> 0 \<le> y0 \<and> y0 < y1 \<and> y1 < 1 \<and> n < 500"
    by (rule expansion_loop_decreasing [OF dec, where k = 21])
      (simp_all add: q_def w_def)
  then obtain y0 y1 n where
    lp: "expansion_loop (stateless g) (Some 0) (Some 1) 2 500 0 q w (g 0) (g q) (g w) 0 s
       = ((y0, y1, 1, g y0, g y1, g 1, n), s)"
    and o: "0 \<le> y0" "y0 < y1" "y1 < 1" and n: "n < 500" by blast
  have n5: "n \<noteq> 500" using n by simp
  have g1: "(2::real) > 1" and m1: "(500::int) > 0" by simp_all
  have "g 1 < g y1" using dec o by simp
  then have nb: "\<not> (g y0 > g y1 \<and> g y1 < g 1)" by simp
  have st: "sort_triple y0 y1 1 (g y0) (g y1) (g 1) = (y0, y1, 1, g y0, g y1, g 1)"
    using o by (simp add: sort_triple_def)
  have "bracket (stateless g) None None (Some 0) (Some 1) 2 eps eps 500 s
      = (Inr ((y0, y1, 1, g y0, g y1, g 1), 2), s)"
    unfolding bracket_stateless [OF g1 m1 init sw wd]
    by (simp only: c1 c2 c3 c4 c5 c6 c7 lp nb n5 st if_False if_True simp_thms prod.case)
  with o show ?thesis by blast
qed

text \<open>
  The objective \<open>-x\<close> is strictly decreasing: the search evaluates it at 0, at
  \<open>(2 ^ k - 1) * 20 * 2 ^ -26\<close> for \<open>k\<close> from 1 to 21, and at 1.
\<close>

theorem bracket_decreasing_hits_boundary_witness:
  "bracket (stateless (\<lambda>x. - x)) None None (Some 0) (Some 1) 2 eps eps 500 ()
     = (Inr ((5242875 / 16777216, 10485755 / 16777216, 1,
              - (5242875 / 16777216), - (10485755 / 16777216), - 1), 2), ())"
  using bracket_decreasing_hits_boundary [of "\<lambda>x. - x" "()"]
  by (simp add: bracket_def bracket_defs Let_def expansion_loop.simps)

end
